(* ===== verification/Prelude.thy ===== *)
theory Prelude
  imports Main "HOL-Library.Word" "HOL-Library.AList" "HOL-Library.Multiset"
begin

text \<open>
  Shared vocabulary of the CAMO development: the Go values every component uses (bytes,
  errors, panics, 64-bit integers, maps with their unspecified iteration order, the
  operating system's random source) and the generic lemmas about them.  The five programs
  under \<^verbatim>\<open>src/\<close> are written in Go; a definition of this theory models a piece of the
  language or of its standard library, never a function of the repository.
\<close>

named_theorems gomap_simps \<open>rewriting of lookups, updates and deletions of Go maps\<close>
named_theorems go_splits \<open>case splits on the outcomes of Go functions\<close>

section \<open>Errors and panics\<close>

text \<open>
  An \<^verbatim>\<open>error\<close> value is either made by the repository (\<^verbatim>\<open>errors.New\<close>, \<^verbatim>\<open>fmt.Errorf\<close>), wraps
  another one (\<^verbatim>\<open>%w\<close>), or comes from a library, in which case only its text is kept.  A function that returns \<^verbatim>\<open>(T, error)\<close> gives
  \<open>goerr + T\<close>; one that returns \<^verbatim>\<open>error\<close> alone gives \<open>goerr option\<close>, with \<open>None\<close> for \<^verbatim>\<open>nil\<close>.
\<close>

datatype goerr = Errorf string | WrapErr string goerr | LibError string

text \<open>The text of an error, as \<^verbatim>\<open>err.Error()\<close> returns it.\<close>

fun err_text :: "goerr \<Rightarrow> string" where
  "err_text (Errorf t) = t"
| "err_text (WrapErr t e) = t @ err_text e"
| "err_text (LibError t) = t"

text \<open>
  A Go function can also panic.  None of the five programs recovers a panic, so a panic in
  any goroutine ends the process.
\<close>

datatype 'a go = Ret 'a | Panic string

fun bind_go :: "'a go \<Rightarrow> ('a \<Rightarrow> 'b go) \<Rightarrow> 'b go" where
  "bind_go (Ret x) f = f x"
| "bind_go (Panic m) f = Panic m"

lemma bind_go_assoc: "bind_go (bind_go m f) g = bind_go m (\<lambda>x. bind_go (f x) g)"
  by (cases m) auto

lemma bind_go_Ret_iff: "bind_go m f = Ret y \<longleftrightarrow> (\<exists>x. m = Ret x \<and> f x = Ret y)"
  by (cases m) auto

lemma bind_go_Panic_iff:
  "bind_go m f = Panic e \<longleftrightarrow> m = Panic e \<or> (\<exists>x. m = Ret x \<and> f x = Panic e)"
  by (cases m) auto

lemma bind_go_right_unit [simp]: "bind_go m Ret = m"
  by (cases m) auto

lemmas sum_go_splits [go_splits] = sum.splits option.splits go.splits if_splits prod.splits

section \<open>Bytes and 64-bit integers\<close>

type_synonym byte = "8 word"
type_synonym bytes = "byte list"

lemma unat_byte: "unat (b :: byte) < 256"
  using unsigned_less [of b, where 'a = nat] by simp

text \<open>
  Go's \<^verbatim>\<open>int\<close> is a 64-bit two's complement integer on the platforms the programs are
  deployed on.  It is modelled as \<open>int\<close>, and \<open>wrap64\<close> is applied where an addition could
  leave the range.  Instants and durations are nanosecond counts.
\<close>

definition wrap64 :: "int \<Rightarrow> int" where
  "wrap64 x = (x + 2 ^ 63) mod 2 ^ 64 - 2 ^ 63"

definition in_int64 :: "int \<Rightarrow> bool" where
  "in_int64 x \<longleftrightarrow> - (2 ^ 63) \<le> x \<and> x < 2 ^ 63"

lemma wrap64_id [simp]: "in_int64 x \<Longrightarrow> wrap64 x = x"
  by (simp add: wrap64_def in_int64_def)

lemma in_int64_wrap64 [simp]: "in_int64 (wrap64 x)"
proof -
  have "0 \<le> (x + 2 ^ 63) mod 2 ^ 64" and "(x + 2 ^ 63) mod 2 ^ 64 < 2 ^ 64"
    by (simp_all add: pos_mod_bound)
  then show ?thesis by (simp add: wrap64_def in_int64_def)
qed

type_synonym instant = int
type_synonym duration = int

definition second :: duration where "second = 1000000000"

text \<open>\<^verbatim>\<open>t.Sub(u)\<close> saturates at the bounds of a 64-bit duration.\<close>

definition time_Sub :: "instant \<Rightarrow> instant \<Rightarrow> duration" where
  "time_Sub t u = max (- (2 ^ 63)) (min (2 ^ 63 - 1) (t - u))"

lemma time_Sub_gt_iff [simp]:
  "- (2 ^ 63) \<le> d \<Longrightarrow> d < 2 ^ 63 - 1 \<Longrightarrow> time_Sub t u > d \<longleftrightarrow> t - u > d"
  by (auto simp: time_Sub_def)

lemma time_Sub_less_iff [simp]:
  "- (2 ^ 63) < d \<Longrightarrow> d \<le> 2 ^ 63 - 1 \<Longrightarrow> time_Sub t u < d \<longleftrightarrow> t - u < d"
  by (auto simp: time_Sub_def)

section \<open>Go maps\<close>

text \<open>
  A Go map is an association list without repeated keys.  Its iteration order is
  unspecified: a \<^verbatim>\<open>range\<close> statement is given the order as an argument, and the theorems hold
  for every order.
\<close>

type_synonym ('k, 'v) gomap = "('k \<times> 'v) list"

abbreviation mget :: "('k, 'v) gomap \<Rightarrow> 'k \<Rightarrow> 'v option" where
  "mget m k \<equiv> map_of m k"

abbreviation mput :: "'k \<Rightarrow> 'v \<Rightarrow> ('k, 'v) gomap \<Rightarrow> ('k, 'v) gomap" where
  "mput \<equiv> AList.update"

abbreviation mdel :: "'k \<Rightarrow> ('k, 'v) gomap \<Rightarrow> ('k, 'v) gomap" where
  "mdel \<equiv> AList.delete"

text \<open>Writing through the pointer a map holds for a key; a missing key is left alone.\<close>

abbreviation mmod :: "'k \<Rightarrow> ('v \<Rightarrow> 'v) \<Rightarrow> ('k, 'v) gomap \<Rightarrow> ('k, 'v) gomap" where
  "mmod \<equiv> AList.map_entry"

abbreviation mkeys :: "('k, 'v) gomap \<Rightarrow> 'k list" where
  "mkeys m \<equiv> map fst m"

definition mwf :: "('k, 'v) gomap \<Rightarrow> bool" where
  "mwf m \<longleftrightarrow> distinct (mkeys m)"

definition mcount :: "('v \<Rightarrow> bool) \<Rightarrow> ('k, 'v) gomap \<Rightarrow> nat" where
  "mcount P m = length (filter (\<lambda>(k, v). P v) m)"

text \<open>The orders in which \<^verbatim>\<open>range\<close> may visit the keys of a map.\<close>

definition range_order :: "('k, 'v) gomap \<Rightarrow> 'k list \<Rightarrow> bool" where
  "range_order m ord \<longleftrightarrow> distinct ord \<and> set ord = set (mkeys m)"

text \<open>The values a \<^verbatim>\<open>range\<close> statement sees in a given order.\<close>

definition range_vals :: "('k, 'v) gomap \<Rightarrow> 'k list \<Rightarrow> 'v list" where
  "range_vals m ord = List.map_filter (mget m) ord"

locale map_interface =
  fixes empty :: "'m"
    and lookup :: "'m \<Rightarrow> 'k \<Rightarrow> 'v option"
    and upd :: "'k \<Rightarrow> 'v \<Rightarrow> 'm \<Rightarrow> 'm"
    and del :: "'k \<Rightarrow> 'm \<Rightarrow> 'm"
    and keys :: "'m \<Rightarrow> 'k list"
    and wf :: "'m \<Rightarrow> bool"
  assumes wf_empty: "wf empty"
    and wf_upd: "wf m \<Longrightarrow> wf (upd k v m)"
    and wf_del: "wf m \<Longrightarrow> wf (del k m)"
    and lookup_empty: "lookup empty k = None"
    and lookup_upd: "lookup (upd k v m) k' = (if k' = k then Some v else lookup m k')"
    and lookup_del: "lookup (del k m) k' = (if k' = k then None else lookup m k')"
    and set_keys: "k \<in> set (keys m) \<longleftrightarrow> lookup m k \<noteq> None"
    and distinct_keys: "wf m \<Longrightarrow> distinct (keys m)"
begin

lemma card_dom: "wf m \<Longrightarrow> card {k. lookup m k \<noteq> None} = length (keys m)"
proof -
  assume "wf m"
  then have "card (set (keys m)) = length (keys m)"
    by (simp add: distinct_card distinct_keys)
  moreover have "set (keys m) = {k. lookup m k \<noteq> None}"
    using set_keys by auto
  ultimately show ?thesis by simp
qed

lemma length_keys_upd:
  assumes "wf m"
  shows "length (keys (upd k v m)) =
    (if lookup m k = None then Suc (length (keys m)) else length (keys m))"
proof -
  have dom: "{k'. lookup (upd k v m) k' \<noteq> None} = insert k {k'. lookup m k' \<noteq> None}"
    by (auto simp: lookup_upd)
  have "finite {k'. lookup m k' \<noteq> None}"
    using set_keys by (metis (mono_tags) Collect_cong Collect_mem_eq List.finite_set)
  then show ?thesis
    using card_dom [OF assms] card_dom [OF wf_upd [OF assms], of k v]
    unfolding dom by (simp add: card_insert_if del: not_None_eq split: if_splits)
qed

lemma length_keys_del:
  assumes "wf m"
  shows "length (keys (del k m)) =
    (if lookup m k = None then length (keys m) else length (keys m) - 1)"
proof -
  have dom: "{k'. lookup (del k m) k' \<noteq> None} = {k'. lookup m k' \<noteq> None} - {k}"
    by (auto simp: lookup_del)
  have "finite {k'. lookup m k' \<noteq> None}"
    using set_keys by (metis (mono_tags) Collect_cong Collect_mem_eq List.finite_set)
  then show ?thesis
    using card_dom [OF assms] card_dom [OF wf_del [OF assms], of k]
    unfolding dom by (simp add: card_Diff_singleton_if del: not_None_eq split: if_splits)
qed

end

lemma mget_mput [simp, gomap_simps]:
  "mget (mput k v m) k' = (if k' = k then Some v else mget m k')"
  by (simp add: update_conv')

lemma mget_mdel [simp, gomap_simps]:
  "mget (mdel k m) k' = (if k' = k then None else mget m k')"
  by (simp add: delete_conv')

lemma mget_mmod [simp, gomap_simps]:
  "mget (mmod k f m) k' = (if k' = k then map_option f (mget m k) else mget m k')"
  by (simp add: map_of_map_entry split: option.split)

lemma mwf_Nil [simp]: "mwf []"
  by (simp add: mwf_def)

lemma mwf_mput [simp, intro]: "mwf m \<Longrightarrow> mwf (mput k v m)"
  by (simp add: mwf_def distinct_update)

lemma mwf_mdel [simp, intro]: "mwf m \<Longrightarrow> mwf (mdel k m)"
  by (simp add: mwf_def distinct_delete)

lemma mkeys_mmod [simp]: "mkeys (mmod k f m) = mkeys m"
  by (induction m) auto

lemma mwf_mmod [simp]: "mwf (mmod k f m) \<longleftrightarrow> mwf m"
  by (simp add: mwf_def)

lemma range_order_mmod [simp]: "range_order (mmod k f m) ord \<longleftrightarrow> range_order m ord"
  unfolding range_order_def by simp

lemma set_mkeys: "k \<in> set (mkeys m) \<longleftrightarrow> mget m k \<noteq> None"
  by (simp add: map_of_eq_None_iff)

interpretation alist: map_interface "[]" mget mput mdel mkeys mwf
proof unfold_locales
  show "\<And>k m. (k \<in> set (mkeys m)) = (mget m k \<noteq> None)"
    by (rule set_mkeys)
qed (auto simp: mwf_def distinct_update distinct_delete)

lemma range_orderD:
  assumes "range_order m ord" and "mwf m"
  shows "k \<in> set ord \<longleftrightarrow> mget m k \<noteq> None" and "length ord = length m"
proof -
  show "k \<in> set ord \<longleftrightarrow> mget m k \<noteq> None"
    using assms(1) set_mkeys [of k m] by (simp add: range_order_def)
  have "length ord = card (set ord)"
    using assms(1) by (metis range_order_def distinct_card)
  also have "\<dots> = card (set (mkeys m))"
    using assms(1) by (simp add: range_order_def)
  also have "\<dots> = length m"
    using assms(2) by (metis mwf_def distinct_card length_map)
  finally show "length ord = length m" .
qed

lemma range_vals_map:
  assumes "range_order m ord"
  shows "range_vals m ord = map (\<lambda>k. the (mget m k)) ord"
proof -
  have "mget m k \<noteq> None" if "k \<in> set ord" for k
    using that assms set_mkeys [of k m] by (simp add: range_order_def)
  then have "filter (\<lambda>k. mget m k \<noteq> None) ord = ord" by (simp add: filter_id_conv)
  then show ?thesis by (simp add: range_vals_def map_filter_def comp_def del: not_None_eq)
qed

lemma range_vals_mkeys:
  assumes "mwf m"
  shows "range_vals m (mkeys m) = map snd m"
proof -
  have "\<And>x. x \<in> set m \<Longrightarrow> mget m (fst x) = Some (snd x)"
    using assms by (auto simp: mwf_def)
  then have "filter (\<lambda>x. mget m (fst x) \<noteq> None) m = m" and
    "map (the \<circ> (\<lambda>x. mget m (fst x))) m = map snd m"
    by (auto simp: filter_id_conv)
  then show ?thesis
    unfolding range_vals_def map_filter_def filter_map by (simp add: comp_def del: not_None_eq)
qed

lemma mput_new: "k \<notin> set (mkeys m) \<Longrightarrow> mput k v m = m @ [(k, v)]"
  by (induction m) auto

lemma mset_range_vals:
  assumes "range_order m ord" and "mwf m"
  shows "mset (range_vals m ord) = mset (map snd m)"
proof -
  have "mset ord = mset (mkeys m)"
    using assms unfolding range_order_def mwf_def by (metis set_eq_iff_mset_eq_distinct)
  then have "mset (range_vals m ord) = mset (range_vals m (mkeys m))"
    unfolding range_vals_def map_filter_def
    by (metis mset_filter mset_map)
  then show ?thesis using range_vals_mkeys [OF assms(2)] by simp
qed

lemma set_range_vals:
  assumes "range_order m ord" and "mwf m"
  shows "v \<in> set (range_vals m ord) \<longleftrightarrow> (\<exists>k. mget m k = Some v)"
proof -
  have "v \<in> set (range_vals m ord) \<longleftrightarrow> v \<in> snd ` set m"
    using mset_range_vals [OF assms] by (metis set_map set_mset_mset)
  also have "\<dots> \<longleftrightarrow> (\<exists>k. mget m k = Some v)"
    using assms(2) by (force simp: mwf_def)
  finally show ?thesis .
qed

lemma mcount_filter: "mcount P m = length (filter P (map snd m))"
  by (induction m) (auto simp: mcount_def)

lemma mcount_mput_new:
  "mget m k = None \<Longrightarrow> mcount P (mput k v m) = mcount P m + (if P v then 1 else 0)"
  by (induction m) (auto simp: mcount_def split: if_splits)

lemma mcount_mmod:
  assumes "mget m k = Some v"
  shows "mcount P (mmod k f m) + (if P v then 1 else 0) =
    mcount P m + (if P (f v) then 1 else 0)"
  using assms by (induction m) (auto simp: mcount_def split: if_splits)

lemma mcount_mmod_None [simp]: "mget m k = None \<Longrightarrow> mmod k f m = m"
  by (induction m) auto

section \<open>Randomness\<close>

text \<open>
  The operating system's random source: its \<open>k\<close>-th read either fails or yields as many
  bytes as are asked for.
\<close>

type_synonym entropy = "nat \<Rightarrow> goerr + (nat \<Rightarrow> byte)"

definition rand_Read :: "entropy \<Rightarrow> nat \<Rightarrow> nat \<Rightarrow> goerr + bytes" where
  "rand_Read ent k n = (case ent k of Inl e \<Rightarrow> Inl e | Inr f \<Rightarrow> Inr (map f [0..<n]))"

lemma rand_Read_length: "rand_Read ent k n = Inr b \<Longrightarrow> length b = n"
  by (auto simp: rand_Read_def split: sum.splits)

text \<open>A source that never fails.\<close>

definition entropy_ok :: "entropy \<Rightarrow> bool" where
  "entropy_ok ent \<longleftrightarrow> (\<forall>k e. ent k \<noteq> Inl e)"

lemma rand_Read_ok: "entropy_ok ent \<Longrightarrow> \<exists>b. rand_Read ent k n = Inr b"
  by (cases "ent k") (auto simp: rand_Read_def entropy_ok_def)

section \<open>Files\<close>

text \<open>The outcome of \<^verbatim>\<open>os.ReadFile\<close>; the callers tell a missing file from other errors.\<close>

datatype read_result = ReadOK bytes | ReadNotExist goerr | ReadError goerr

section \<open>Transition systems\<close>

text \<open>
  Components that run concurrent goroutines are described by a step relation; what holds in
  every reachable state is shown through \<open>invariant_system\<close>.
\<close>

inductive reachable :: "('s \<Rightarrow> bool) \<Rightarrow> ('s \<Rightarrow> 's \<Rightarrow> bool) \<Rightarrow> 's \<Rightarrow> bool"
  for init step where
  reach_init: "init s \<Longrightarrow> reachable init step s"
| reach_step: "reachable init step s \<Longrightarrow> step s t \<Longrightarrow> reachable init step t"

locale invariant_system =
  fixes init :: "'s \<Rightarrow> bool" and step :: "'s \<Rightarrow> 's \<Rightarrow> bool" and inv :: "'s \<Rightarrow> bool"
  assumes inv_init: "init s \<Longrightarrow> inv s"
    and inv_step: "inv s \<Longrightarrow> step s t \<Longrightarrow> inv t"
begin

lemma reachable_inv: "reachable init step s \<Longrightarrow> inv s"
  by (induction rule: reachable.induct) (auto intro: inv_init inv_step)

end

section \<open>Lists\<close>

lemma distinct_map_filter: "distinct (map f xs) \<Longrightarrow> distinct (map f (filter P xs))"
  by (induction xs) auto

lemma nth_append_last: "(xs @ [x]) ! length xs = x"
  by simp

end
