(* ===== verification/Base64.thy ===== *)
theory Base64
  imports Prelude
begin

text \<open>
  Go's \<^verbatim>\<open>encoding/base64\<close>, of which the programs use two encodings: \<^verbatim>\<open>StdEncoding\<close> (with
  \<^verbatim>\<open>=\<close> padding) for signatures, session tokens, WireGuard keys and the key file, and
  \<^verbatim>\<open>RawURLEncoding\<close> (no padding) for server identifiers.  Decoding follows the library's
  quantum decoder: line breaks are skipped, unused low bits of the last character are
  ignored, anything after the padding is an error.  The position reported in the error
  value is left out.
\<close>

record encoding =
  enc_alpha :: string
  enc_pad :: "char option"

definition StdEncoding :: encoding where
  "StdEncoding = \<lparr>enc_alpha = ''ABCDEFGHIJKLMNOPQRSTUVWXYZabcdefghijklmnopqrstuvwxyz0123456789+/'',
     enc_pad = Some CHR ''=''\<rparr>"

definition RawURLEncoding :: encoding where
  "RawURLEncoding = \<lparr>enc_alpha = ''ABCDEFGHIJKLMNOPQRSTUVWXYZabcdefghijklmnopqrstuvwxyz0123456789-_'',
     enc_pad = None\<rparr>"

definition CorruptInput :: goerr where
  "CorruptInput = LibError ''encoding/base64''"

section \<open>Encoding\<close>

definition sextet :: "encoding \<Rightarrow> nat \<Rightarrow> char" where
  "sextet e v = enc_alpha e ! (v mod 64)"

definition b64_padding :: "encoding \<Rightarrow> nat \<Rightarrow> string" where
  "b64_padding e n = (case enc_pad e of None \<Rightarrow> [] | Some c \<Rightarrow> replicate n c)"

fun EncodeToString :: "encoding \<Rightarrow> bytes \<Rightarrow> string" where
  "EncodeToString e (a # b # c # rest) =
     (let v = unat a * 65536 + unat b * 256 + unat c
      in sextet e (v div 262144) # sextet e (v div 4096) # sextet e (v div 64) # sextet e v
         # EncodeToString e rest)"
| "EncodeToString e [a, b] =
     (let v = unat a * 65536 + unat b * 256
      in [sextet e (v div 262144), sextet e (v div 4096), sextet e (v div 64)] @ b64_padding e 1)"
| "EncodeToString e [a] =
     (let v = unat a * 65536
      in [sextet e (v div 262144), sextet e (v div 4096)] @ b64_padding e 2)"
| "EncodeToString e [] = []"

section \<open>Decoding\<close>

definition alpha_index :: "encoding \<Rightarrow> char \<Rightarrow> nat option" where
  "alpha_index e c = map_of (zip (enc_alpha e) [0..<64]) c"

definition is_nl :: "char \<Rightarrow> bool" where
  "is_nl c \<longleftrightarrow> c = CHR 0x0A \<or> c = CHR 0x0D"

definition skip_nl :: "string \<Rightarrow> string" where
  "skip_nl cs = dropWhile is_nl cs"

text \<open>One quantum: up to four 6-bit values and the input left over.\<close>

fun decodeQuantum :: "encoding \<Rightarrow> nat list \<Rightarrow> string \<Rightarrow> goerr + (nat list \<times> string)" where
  "decodeQuantum e acc [] =
     (if length acc = 0 \<or> length acc = 4 then Inr (acc, [])
      else if length acc = 1 \<or> enc_pad e \<noteq> None then Inl CorruptInput
      else Inr (acc, []))"
| "decodeQuantum e acc (c # cs) =
     (if length acc = 4 then Inr (acc, c # cs)
      else case alpha_index e c of
        Some v \<Rightarrow> decodeQuantum e (acc @ [v]) cs
      | None \<Rightarrow>
          if is_nl c then decodeQuantum e acc cs
          else if Some c \<noteq> enc_pad e then Inl CorruptInput
          else if length acc \<le> 1 then Inl CorruptInput
          else if length acc = 2 then
            (case skip_nl cs of
               [] \<Rightarrow> Inl CorruptInput
             | d # ds \<Rightarrow>
                 if Some d \<noteq> enc_pad e then Inl CorruptInput
                 else if skip_nl ds \<noteq> [] then Inl CorruptInput
                 else Inr (acc, []))
          else if skip_nl cs \<noteq> [] then Inl CorruptInput
          else Inr (acc, []))"

text \<open>The bytes a quantum stands for; missing 6-bit values count as zero.\<close>

definition quantum_bytes :: "nat list \<Rightarrow> bytes" where
  "quantum_bytes q =
     (let s = (\<lambda>i. if i < length q then q ! i else 0);
          v = s 0 * 262144 + s 1 * 4096 + s 2 * 64 + s 3
      in take (length q - 1) [of_nat (v div 65536), of_nat (v div 256), of_nat v])"

lemma decodeQuantum_shrinks:
  "decodeQuantum e acc cs = Inr (q, rest) \<Longrightarrow> length rest \<le> length cs"
proof (induction e acc cs rule: decodeQuantum.induct)
  case (1 e acc)
  then show ?case by (auto split: if_splits)
next
  case (2 e acc c cs)
  then show ?case by (fastforce split: if_splits option.splits list.splits)
qed

function DecodeString :: "encoding \<Rightarrow> string \<Rightarrow> goerr + bytes" where
  "DecodeString e [] = Inr []"
| "DecodeString e (c # cs) =
     (case decodeQuantum e [] (c # cs) of
        Inl err \<Rightarrow> Inl err
      | Inr (q, rest) \<Rightarrow>
          (case DecodeString e rest of
             Inl err \<Rightarrow> Inl err
           | Inr bs \<Rightarrow> Inr (quantum_bytes q @ bs)))"
  by pat_completeness auto
termination
proof (relation "measure (\<lambda>(e, cs). length cs)", goal_cases)
  case 1
  show ?case by simp
next
  case (2 e c cs p q rest)
  then have "decodeQuantum e [] (c # cs) = Inr (q, rest)" by simp
  then have "length rest \<le> length cs"
    by (auto split: if_splits option.splits list.splits dest!: decodeQuantum_shrinks)
  then show ?case by simp
qed

section \<open>Round trip\<close>

locale base64_encoding =
  fixes e :: encoding
  assumes index_sextet: "v < 64 \<Longrightarrow> alpha_index e (enc_alpha e ! v) = Some v"
    and pad_not_alpha: "enc_pad e = Some c \<Longrightarrow> alpha_index e c = None"
    and pad_not_nl: "enc_pad e = Some c \<Longrightarrow> \<not> is_nl c"
begin

lemma alpha_sextet [simp]: "alpha_index e (sextet e v) = Some (v mod 64)"
  by (simp add: sextet_def index_sextet)

lemma decodeQuantum_full:
  "decodeQuantum e [] (sextet e a # sextet e b # sextet e c # sextet e d # rest) =
     Inr ([a mod 64, b mod 64, c mod 64, d mod 64], rest)"
  by (cases rest) simp_all

lemma decodeQuantum_three:
  "decodeQuantum e [] ([sextet e a, sextet e b, sextet e c] @ b64_padding e 1) =
     Inr ([a mod 64, b mod 64, c mod 64], [])"
  using pad_not_alpha pad_not_nl
  by (cases "enc_pad e") (simp_all add: b64_padding_def skip_nl_def)

lemma decodeQuantum_two:
  "decodeQuantum e [] ([sextet e a, sextet e b] @ b64_padding e 2) =
     Inr ([a mod 64, b mod 64], [])"
  using pad_not_alpha pad_not_nl
  by (cases "enc_pad e") (simp_all add: b64_padding_def skip_nl_def numeral_2_eq_2)

lemma quantum_bytes_four:
  "quantum_bytes [w, x, y, z] =
     (let v = w * 262144 + x * 4096 + y * 64 + z
      in [of_nat (v div 65536), of_nat (v div 256), of_nat v])"
  by (simp add: quantum_bytes_def Let_def numeral_3_eq_3 numeral_2_eq_2)

lemma quantum_bytes_full:
  "quantum_bytes [v div 262144 mod 64, v div 4096 mod 64, v div 64 mod 64, v mod 64] =
     [a, b, c]" if "v = unat a * 65536 + unat b * 256 + unat c" for v and a b c :: byte
proof -
  have bounds: "unat a < 256" "unat b < 256" "unat c < 256"
    by (rule unat_byte)+
  have z: "(256 :: byte) = 0" "(65536 :: byte) = 0" by simp_all
  have "v < 16777216" using that bounds by linarith
  then have top: "v div 262144 mod 64 = v div 262144" by simp
  have d: "v div 4096 = v div 64 div 64" "v div 262144 = v div 64 div 64 div 64"
    by (simp_all add: div_mult2_eq [symmetric])
  have v: "v div 262144 mod 64 * 262144 + v div 4096 mod 64 * 4096 +
      v div 64 mod 64 * 64 + v mod 64 = v"
    unfolding top unfolding d
    using div_mult_mod_eq [of v 64] div_mult_mod_eq [of "v div 64" 64]
      div_mult_mod_eq [of "v div 64 div 64" 64] by linarith
  have "v div 65536 = unat a"
    by (rule div_nat_eqI) (use that bounds in simp_all)
  moreover have "of_nat (v div 256) = b"
  proof -
    have "v div 256 = unat a * 256 + unat b"
      by (rule div_nat_eqI) (use that bounds in simp_all)
    then show ?thesis by (simp add: z)
  qed
  moreover have "of_nat v = c"
    using that by (simp add: z)
  ultimately show ?thesis
    unfolding quantum_bytes_four v Let_def by simp
qed

lemma quantum_bytes_shorter:
  "quantum_bytes [x, y, z] = take 2 (quantum_bytes [x, y, z, 0])"
  "quantum_bytes [x, y] = take 1 (quantum_bytes [x, y, 0, 0])"
  by (simp_all add: quantum_bytes_def Let_def numeral_3_eq_3 numeral_2_eq_2)

lemma DecodeString_step:
  assumes "decodeQuantum e [] cs = Inr (q, rest)" and "cs \<noteq> []"
    and "DecodeString e rest = Inr bs"
  shows "DecodeString e cs = Inr (quantum_bytes q @ bs)"
  using assms by (cases cs) auto

lemma roundtrip_aux: "e' = e \<Longrightarrow> DecodeString e (EncodeToString e bs) = Inr bs"
proof (induction e' bs rule: EncodeToString.induct)
  case (1 e' a b c rest)
  show ?case
    using DecodeString_step [OF decodeQuantum_full _ "1"(1) [OF refl "1"(2)]] quantum_bytes_full [OF refl, of a b c]
    by (simp add: Let_def)
next
  case (2 e' a b)
  have "unat a * 65536 + unat b * 256 = unat a * 65536 + unat b * 256 + unat (0 :: byte)"
    by simp
  from quantum_bytes_full [OF this] show ?case
    using DecodeString_step [OF decodeQuantum_three, of _ _ _ "[]"]
    by (simp add: Let_def quantum_bytes_shorter)
next
  case (3 e' a)
  have "unat a * 65536 = unat a * 65536 + unat (0 :: byte) * 256 + unat (0 :: byte)"
    by simp
  from quantum_bytes_full [OF this] show ?case
    using DecodeString_step [OF decodeQuantum_two, of _ _ "[]"]
    by (simp add: Let_def quantum_bytes_shorter)
qed simp

lemma roundtrip: "DecodeString e (EncodeToString e bs) = Inr bs"
  by (rule roundtrip_aux) (rule refl)

lemma encode_inj: "EncodeToString e bs = EncodeToString e bs' \<Longrightarrow> bs = bs'"
  by (metis roundtrip Inr_inject)

end

lemma StdEncoding_table:
  "list_all (\<lambda>v. alpha_index StdEncoding (enc_alpha StdEncoding ! v) = Some v) [0..<64]"
  by code_simp

lemma RawURLEncoding_table:
  "list_all (\<lambda>v. alpha_index RawURLEncoding (enc_alpha RawURLEncoding ! v) = Some v) [0..<64]"
  by code_simp

interpretation std: base64_encoding StdEncoding
proof unfold_locales
  show "\<And>v. v < 64 \<Longrightarrow> alpha_index StdEncoding (enc_alpha StdEncoding ! v) = Some v"
    using StdEncoding_table by (auto simp: list_all_iff)
  show "\<And>c. enc_pad StdEncoding = Some c \<Longrightarrow> alpha_index StdEncoding c = None"
    by (auto simp: StdEncoding_def alpha_index_def)
  show "\<And>c. enc_pad StdEncoding = Some c \<Longrightarrow> \<not> is_nl c"
    by (auto simp: StdEncoding_def is_nl_def)
qed

interpretation rawurl: base64_encoding RawURLEncoding
proof unfold_locales
  show "\<And>v. v < 64 \<Longrightarrow> alpha_index RawURLEncoding (enc_alpha RawURLEncoding ! v) = Some v"
    using RawURLEncoding_table by (auto simp: list_all_iff)
qed (auto simp: RawURLEncoding_def)

lemma length_EncodeToString_Std:
  "length (EncodeToString StdEncoding bs) = 4 * ((length bs + 2) div 3)"
proof (induction StdEncoding bs rule: EncodeToString.induct)
  case (1 a b c rest)
  have "(length (a # b # c # rest) + 2) div 3 = Suc ((length rest + 2) div 3)"
    by simp
  with "1" show ?case by (simp add: Let_def)
qed (simp_all add: Let_def b64_padding_def StdEncoding_def)

end
