(* ===== verification/Circuit_Store.thy ===== *)
theory Circuit_Store
  imports Base64
begin

text \<open>
  \<^verbatim>\<open>camo-circuit/circuit.go\<close>: hops, circuits and the store of active circuits, which keeps
  one circuit per device (IMSI) and an index from session tokens to circuits.  A stored
  circuit is never written again, so the pointers of the Go maps are modelled by the values
  they point to.
\<close>

section \<open>Data\<close>

definition chainRotationInterval :: duration where
  "chainRotationInterval = 600 * second"

definition minHops :: int where "minHops = 3"

definition maxHops :: int where "maxHops = 5"

definition sessionTokenLen :: nat where "sessionTokenLen = 16"

record Hop =
  hop_ServerID :: string
  hop_WireGuardAddress :: string
  hop_WireGuardPubKey :: string
  hop_Jurisdiction :: string
  hop_HopIndex :: int
  hop_IsExit :: bool

record Circuit =
  ci_CircuitID :: string
  ci_DeviceIMSI :: string
  ci_SessionToken :: string
  ci_Hops :: "Hop list"
  ci_CreatedAt :: instant
  ci_RotateAt :: instant

text \<open>What a middle or exit node is to keep per session; no code reads or writes it.\<close>

record SessionTableEntry =
  ste_SessionToken :: string
  ste_ForwardPeer :: string
  ste_ReturnPeer :: string
  ste_CreatedAt :: instant
  ste_IsExit :: bool

record circuitStore =
  cs_circuits :: "(string, Circuit) gomap"
  cs_byToken :: "(string, Circuit) gomap"

section \<open>Operations\<close>

definition newCircuitStore :: circuitStore where
  "newCircuitStore = \<lparr>cs_circuits = [], cs_byToken = []\<rparr>"

definition cs_put :: "Circuit \<Rightarrow> circuitStore \<Rightarrow> circuitStore" where
  "cs_put c s =
     (let bt = (case mget (cs_circuits s) (ci_DeviceIMSI c) of
                  Some old \<Rightarrow> mdel (ci_SessionToken old) (cs_byToken s)
                | None \<Rightarrow> cs_byToken s)
      in \<lparr>cs_circuits = mput (ci_DeviceIMSI c) c (cs_circuits s),
          cs_byToken = mput (ci_SessionToken c) c bt\<rparr>)"

definition getByIMSI :: "string \<Rightarrow> circuitStore \<Rightarrow> Circuit option" where
  "getByIMSI imsi s = mget (cs_circuits s) imsi"

definition cs_remove :: "string \<Rightarrow> circuitStore \<Rightarrow> circuitStore" where
  "cs_remove imsi s =
     (case mget (cs_circuits s) imsi of
        Some c \<Rightarrow> \<lparr>cs_circuits = mdel imsi (cs_circuits s),
                   cs_byToken = mdel (ci_SessionToken c) (cs_byToken s)\<rparr>
      | None \<Rightarrow> s)"

definition cs_all :: "string list \<Rightarrow> circuitStore \<Rightarrow> Circuit list" where
  "cs_all ord s = range_vals (cs_circuits s) ord"

definition cs_count :: "circuitStore \<Rightarrow> int" where
  "cs_count s = int (length (cs_circuits s))"

text \<open>\<^verbatim>\<open>newSessionToken\<close> makes the \<open>k\<close>-th read of the random source.\<close>

definition newSessionToken :: "entropy \<Rightarrow> nat \<Rightarrow> goerr + string" where
  "newSessionToken ent k =
     (case rand_Read ent k sessionTokenLen of
        Inl e \<Rightarrow> Inl e
      | Inr b \<Rightarrow> Inr (EncodeToString StdEncoding b))"

section \<open>The token index\<close>

text \<open>
  Every index entry leads to the active circuit that has this token, and devices are keyed
  by their own IMSI.
\<close>

definition cs_sound :: "circuitStore \<Rightarrow> bool" where
  "cs_sound s \<longleftrightarrow> mwf (cs_circuits s) \<and> mwf (cs_byToken s) \<and>
     (\<forall>i c. mget (cs_circuits s) i = Some c \<longrightarrow> ci_DeviceIMSI c = i) \<and>
     (\<forall>t c. mget (cs_byToken s) t = Some c \<longrightarrow>
        ci_SessionToken c = t \<and> mget (cs_circuits s) (ci_DeviceIMSI c) = Some c)"

text \<open>Every active circuit is found under its token.\<close>

definition cs_indexed :: "circuitStore \<Rightarrow> bool" where
  "cs_indexed s \<longleftrightarrow>
     (\<forall>i c. mget (cs_circuits s) i = Some c \<longrightarrow> mget (cs_byToken s) (ci_SessionToken c) = Some c)"

text \<open>No other device's circuit has the token of \<open>c\<close>.\<close>

definition token_fresh :: "Circuit \<Rightarrow> circuitStore \<Rightarrow> bool" where
  "token_fresh c s \<longleftrightarrow>
     (\<forall>i c'. mget (cs_circuits s) i = Some c' \<longrightarrow> i \<noteq> ci_DeviceIMSI c \<longrightarrow>
        ci_SessionToken c' \<noteq> ci_SessionToken c)"

text \<open>
  The store after a sequence of operations, and the condition on the tokens in it: whenever a
  circuit is stored, its token is not that of another device's circuit.
\<close>

datatype cs_op = Put Circuit | Remove string

fun cs_exec :: "cs_op \<Rightarrow> circuitStore \<Rightarrow> circuitStore" where
  "cs_exec (Put c) s = cs_put c s"
| "cs_exec (Remove imsi) s = cs_remove imsi s"

fun op_fresh :: "cs_op \<Rightarrow> circuitStore \<Rightarrow> bool" where
  "op_fresh (Put c) s = token_fresh c s"
| "op_fresh (Remove imsi) s = True"

definition cs_run :: "cs_op list \<Rightarrow> circuitStore" where
  "cs_run ops = fold cs_exec ops newCircuitStore"

definition tokens_fresh :: "cs_op list \<Rightarrow> bool" where
  "tokens_fresh ops \<longleftrightarrow> (\<forall>k < length ops. op_fresh (ops ! k) (cs_run (take k ops)))"

text \<open>The specification: what the last operation that concerns a device says, latest operation first.\<close>

fun last_stored :: "string \<Rightarrow> cs_op list \<Rightarrow> Circuit option" where
  "last_stored imsi [] = None"
| "last_stored imsi (Put c # earlier) = (if ci_DeviceIMSI c = imsi then Some c else last_stored imsi earlier)"
| "last_stored imsi (Remove i # earlier) = (if i = imsi then None else last_stored imsi earlier)"

lemma cs_sound_new: "cs_sound newCircuitStore"
  by (simp add: cs_sound_def newCircuitStore_def)

lemma cs_put_lookup [simp]:
  "mget (cs_circuits (cs_put c s)) i =
     (if i = ci_DeviceIMSI c then Some c else mget (cs_circuits s) i)"
  "mget (cs_byToken (cs_put c s)) t =
     (if t = ci_SessionToken c then Some c
      else if map_option ci_SessionToken (mget (cs_circuits s) (ci_DeviceIMSI c)) = Some t then None
      else mget (cs_byToken s) t)"
  by (auto simp: cs_put_def Let_def split: option.split)

lemma cs_remove_lookup [simp]:
  "mget (cs_circuits (cs_remove imsi s)) i =
     (if i = imsi then None else mget (cs_circuits s) i)"
  "mget (cs_byToken (cs_remove imsi s)) t =
     (if map_option ci_SessionToken (mget (cs_circuits s) imsi) = Some t then None
      else mget (cs_byToken s) t)"
  by (auto simp: cs_remove_def split: option.split)

lemma cs_put_mwf [simp]:
  "mwf (cs_circuits s) \<Longrightarrow> mwf (cs_circuits (cs_put c s))"
  "mwf (cs_byToken s) \<Longrightarrow> mwf (cs_byToken (cs_put c s))"
  by (auto simp: cs_put_def Let_def split: option.split)

lemma cs_remove_mwf [simp]:
  "mwf (cs_circuits s) \<Longrightarrow> mwf (cs_circuits (cs_remove imsi s))"
  "mwf (cs_byToken s) \<Longrightarrow> mwf (cs_byToken (cs_remove imsi s))"
  by (auto simp: cs_remove_def split: option.split)

lemma cs_sound_put: "cs_sound s \<Longrightarrow> cs_sound (cs_put c s)"
  unfolding cs_sound_def by (auto split: if_splits) metis

lemma cs_sound_remove: "cs_sound s \<Longrightarrow> cs_sound (cs_remove imsi s)"
  unfolding cs_sound_def by (auto split: if_splits)

lemma cs_indexed_put:
  assumes "cs_sound s" and "cs_indexed s" and "token_fresh c s"
  shows "cs_indexed (cs_put c s)"
  unfolding cs_indexed_def
proof (intro allI impI)
  fix i c'
  assume "mget (cs_circuits (cs_put c s)) i = Some c'"
  then show "mget (cs_byToken (cs_put c s)) (ci_SessionToken c') = Some c'"
    using assms unfolding cs_sound_def cs_indexed_def token_fresh_def
    by (cases "i = ci_DeviceIMSI c") (simp_all, metis option.inject)
qed

lemma cs_indexed_remove:
  assumes "cs_sound s" and "cs_indexed s"
  shows "cs_indexed (cs_remove imsi s)"
  unfolding cs_indexed_def
proof (intro allI impI)
  fix i c'
  assume "mget (cs_circuits (cs_remove imsi s)) i = Some c'"
  then show "mget (cs_byToken (cs_remove imsi s)) (ci_SessionToken c') = Some c'"
    using assms unfolding cs_sound_def cs_indexed_def
    by (cases "i = imsi") (simp_all, metis option.inject)
qed

lemma cs_run_snoc [simp]: "cs_run (ops @ [op]) = cs_exec op (cs_run ops)"
  by (simp add: cs_run_def)

lemma tokens_fresh_snoc: "tokens_fresh (ops @ [op]) \<longleftrightarrow> tokens_fresh ops \<and> op_fresh op (cs_run ops)"
  by (auto simp: tokens_fresh_def less_Suc_eq nth_append)

lemma cs_run_sound: "cs_sound (cs_run ops)"
proof (induction ops rule: rev_induct)
  case Nil
  then show ?case by (simp add: cs_run_def cs_sound_new)
next
  case (snoc op ops)
  then show ?case by (cases op) (simp_all add: cs_sound_put cs_sound_remove)
qed

lemma cs_run_indexed: "tokens_fresh ops \<Longrightarrow> cs_indexed (cs_run ops)"
proof (induction ops rule: rev_induct)
  case Nil
  then show ?case by (simp add: cs_run_def cs_indexed_def newCircuitStore_def)
next
  case (snoc op ops)
  then show ?case
    using cs_run_sound [of ops] by (cases op) (simp_all add: tokens_fresh_snoc cs_indexed_put cs_indexed_remove)
qed

lemma cs_run_last_stored: "getByIMSI imsi (cs_run ops) = last_stored imsi (rev ops)"
proof (induction ops rule: rev_induct)
  case Nil
  then show ?case by (simp add: cs_run_def getByIMSI_def newCircuitStore_def)
next
  case (snoc op ops)
  then show ?case by (cases op) (auto simp: getByIMSI_def)
qed

section \<open>Properties\<close>

text \<open>C20. After any sequence of \<^verbatim>\<open>put\<close> and \<^verbatim>\<open>remove\<close> a device is found with exactly the circuit that was stored
  last for it, unless it was removed since, and a token leads only to such a circuit, the one that
  has this token.  As long as no circuit is stored with the token of another device's circuit, every
  device's circuit is also found under its token.\<close>

theorem circuit_index_exact:
  "getByIMSI imsi (cs_run ops) = last_stored imsi (rev ops)
    \<and> (mget (cs_byToken (cs_run ops)) t = Some c \<longrightarrow>
         last_stored (ci_DeviceIMSI c) (rev ops) = Some c \<and> ci_SessionToken c = t)
    \<and> (tokens_fresh ops \<longrightarrow> last_stored imsi (rev ops) = Some c \<longrightarrow> mget (cs_byToken (cs_run ops)) (ci_SessionToken c) = Some c)"
  using cs_run_sound [of ops] cs_run_indexed [of ops]
  unfolding cs_run_last_stored [symmetric] cs_sound_def cs_indexed_def getByIMSI_def by blast

definition ex_stored :: Circuit where
  "ex_stored = \<lparr>ci_CircuitID = ''id'', ci_DeviceIMSI = ''imsi'', ci_SessionToken = ''tok'',
     ci_Hops = [], ci_CreatedAt = 0, ci_RotateAt = chainRotationInterval\<rparr>"

theorem circuit_index_exact_witness:
  "let ops = [Put ex_stored, Put (ex_stored\<lparr>ci_DeviceIMSI := ''other'', ci_SessionToken := ''tok1''\<rparr>),
      Put (ex_stored\<lparr>ci_SessionToken := ''tok2''\<rparr>), Remove ''other'']
   in tokens_fresh ops \<and> getByIMSI ''imsi'' (cs_run ops) = Some (ex_stored\<lparr>ci_SessionToken := ''tok2''\<rparr>)
    \<and> mget (cs_byToken (cs_run ops)) ''tok2'' = Some (ex_stored\<lparr>ci_SessionToken := ''tok2''\<rparr>)"
proof -
  let ?ops = "[Put ex_stored, Put (ex_stored\<lparr>ci_DeviceIMSI := ''other'', ci_SessionToken := ''tok1''\<rparr>),
      Put (ex_stored\<lparr>ci_SessionToken := ''tok2''\<rparr>), Remove ''other'']"
  have fresh: "tokens_fresh ?ops"
    by (auto simp: tokens_fresh_def less_Suc_eq numeral_eq_Suc token_fresh_def cs_run_def newCircuitStore_def ex_stored_def split: if_splits)
  show ?thesis
    using circuit_index_exact [of "''imsi''" ?ops "''tok2''" "ex_stored\<lparr>ci_SessionToken := ''tok2''\<rparr>"] fresh
    by (simp add: Let_def ex_stored_def)
qed

text \<open>Storing and removing: after \<^verbatim>\<open>put\<close> the device has exactly the new circuit and the old token
  is gone, after \<^verbatim>\<open>remove\<close> the device has none, its token is gone, and in both cases other
  devices keep their circuits.\<close>

theorem circuit_put_remove:
  assumes "cs_sound s"
  shows "getByIMSI i (cs_put c s) = (if i = ci_DeviceIMSI c then Some c else getByIMSI i s)
    \<and> getByIMSI i (cs_remove imsi s) = (if i = imsi then None else getByIMSI i s)
    \<and> (getByIMSI (ci_DeviceIMSI c) s = Some old \<and> ci_SessionToken old \<noteq> ci_SessionToken c \<longrightarrow>
         mget (cs_byToken (cs_put c s)) (ci_SessionToken old) = None)
    \<and> (getByIMSI imsi s = Some old \<longrightarrow> mget (cs_byToken (cs_remove imsi s)) (ci_SessionToken old) = None)
    \<and> cs_count (cs_put c s) = (if getByIMSI (ci_DeviceIMSI c) s = None then cs_count s + 1 else cs_count s)
    \<and> cs_count (cs_remove imsi s) = (if getByIMSI imsi s = None then cs_count s else cs_count s - 1)"
proof -
  have wf: "mwf (cs_circuits s)" using assms by (simp add: cs_sound_def)
  have "mget (cs_circuits s) imsi \<noteq> None \<Longrightarrow> 0 < length (cs_circuits s)"
    by (cases "cs_circuits s") auto
  then have "cs_count (cs_remove imsi s) = (if getByIMSI imsi s = None then cs_count s else cs_count s - 1)"
    using alist.length_keys_del [OF wf, of imsi]
    by (auto simp: cs_count_def getByIMSI_def cs_remove_def of_nat_diff Suc_le_eq split: option.splits)
  moreover have "cs_count (cs_put c s) =
      (if getByIMSI (ci_DeviceIMSI c) s = None then cs_count s + 1 else cs_count s)"
    using alist.length_keys_upd [OF wf, of "ci_DeviceIMSI c" c]
    by (auto simp: cs_count_def getByIMSI_def cs_put_def Let_def split: if_splits)
  ultimately show ?thesis by (simp add: getByIMSI_def)
qed

theorem circuit_put_remove_witness:
  "cs_count (cs_put ex_stored newCircuitStore) = 1
    \<and> getByIMSI ''imsi'' (cs_put ex_stored newCircuitStore) = Some ex_stored"
  using circuit_put_remove [OF cs_sound_new, where c = ex_stored and i = "''imsi''"]
  by (simp add: getByIMSI_def newCircuitStore_def cs_count_def ex_stored_def)

end
