(* ===== verification/GoFloat.thy ===== *)
theory GoFloat
  imports Complex_Main Prelude
begin

text \<open>
  Go's \<^verbatim>\<open>float64\<close>: IEEE 754 binary64 numbers with rounding to nearest, ties to even.  The
  programs use them in two places, the score of a node (\<^verbatim>\<open>camo-circuit/constructor.go\<close>) and
  the target size of the active SIM subset (\<^verbatim>\<open>camo-simpool/rotation.go\<close>).  A finite number
  is a pair \<open>Fin m e\<close> with value \<open>m * 2 ^ e\<close>; the sign of zero is not represented, because
  neither use observes it.  A product and the sum it feeds are rounded one after the other,
  as on amd64 (the language allows fusing them on other processors).
\<close>

datatype float64 = NaN | Inf bool | Fin int int

section \<open>Rounding\<close>

fun nbits :: "nat \<Rightarrow> nat" where
  "nbits n = (if n = 0 then 0 else Suc (nbits (n div 2)))"

declare nbits.simps [simp del]

text \<open>The quotient of \<open>n\<close> by \<open>2 ^ k\<close>, rounded to nearest, ties to even.\<close>

definition rne :: "nat \<Rightarrow> nat \<Rightarrow> nat" where
  "rne n k =
     (if k = 0 then n
      else let q = n div 2 ^ k; r = n mod 2 ^ k; h = 2 ^ (k - 1)
           in if h < r \<or> (r = h \<and> odd q) then q + 1 else q)"

text \<open>
  \<open>round64 m e\<close> is the binary64 number nearest to \<open>m * 2 ^ e\<close>: 53 significant bits, least
  exponent \<open>-1074\<close>, overflow to an infinity from \<open>2 ^ 1024\<close> on.
\<close>

definition round64 :: "int \<Rightarrow> int \<Rightarrow> float64" where
  "round64 m e =
     (let a = nat \<bar>m\<bar>;
          k = nat (max (int (nbits a) - 53) (- 1074 - e));
          q = rne a k;
          e' = e + int k
      in if q \<noteq> 0 \<and> int (nbits q) + e' > 1024 then Inf (0 < m) else Fin (sgn m * int q) e')"

definition f64_of_int :: "int \<Rightarrow> float64" where
  "f64_of_int n = round64 n 0"

fun f64_mul :: "float64 \<Rightarrow> float64 \<Rightarrow> float64" where
  "f64_mul (Fin m e) (Fin m' e') = round64 (m * m') (e + e')"
| "f64_mul (Fin m e) (Inf s) = (if m = 0 then NaN else Inf ((0 < m) = s))"
| "f64_mul (Inf s) (Fin m e) = (if m = 0 then NaN else Inf ((0 < m) = s))"
| "f64_mul (Inf s) (Inf s') = Inf (s = s')"
| "f64_mul _ _ = NaN"

fun f64_add :: "float64 \<Rightarrow> float64 \<Rightarrow> float64" where
  "f64_add (Fin m e) (Fin m' e') =
     (let b = min e e' in round64 (m * 2 ^ nat (e - b) + m' * 2 ^ nat (e' - b)) b)"
| "f64_add (Fin m e) (Inf s) = Inf s"
| "f64_add (Inf s) (Fin m e) = Inf s"
| "f64_add (Inf s) (Inf s') = (if s = s' then Inf s else NaN)"
| "f64_add _ _ = NaN"

text \<open>\<^verbatim>\<open>x > y\<close>, false as soon as an operand is not a number.\<close>

fun f64_gt :: "float64 \<Rightarrow> float64 \<Rightarrow> bool" where
  "f64_gt (Fin m e) (Fin m' e') =
     (let b = min e e' in m * 2 ^ nat (e - b) > m' * 2 ^ nat (e' - b))"
| "f64_gt (Fin m e) (Inf s) = (\<not> s)"
| "f64_gt (Inf s) (Fin m e) = s"
| "f64_gt (Inf s) (Inf s') = (s \<and> \<not> s')"
| "f64_gt _ _ = False"

text \<open>
  \<^verbatim>\<open>int(x)\<close> truncates towards zero.  Out of range the result is what the amd64 conversion
  instruction delivers; no function of the repository converts such a number.
\<close>

fun f64_to_int :: "float64 \<Rightarrow> int" where
  "f64_to_int (Fin m e) =
     (let v = (if 0 \<le> e then m * 2 ^ nat e else sgn m * (\<bar>m\<bar> div 2 ^ nat (- e)))
      in if in_int64 v then v else - (2 ^ 63))"
| "f64_to_int _ = - (2 ^ 63)"

section \<open>Bounds on rounding\<close>

lemma nbits_upper: "n < 2 ^ nbits n"
proof (induction n rule: nbits.induct)
  case (1 n)
  show ?case
  proof (cases "n = 0")
    case True
    then show ?thesis by (simp add: nbits.simps)
  next
    case False
    with "1.IH" have "n div 2 < 2 ^ nbits (n div 2)" by simp
    then have "n < 2 * 2 ^ nbits (n div 2)" by linarith
    with False show ?thesis by (simp add: nbits.simps [of n])
  qed
qed

lemma nbits_le: "n < 2 ^ k \<Longrightarrow> nbits n \<le> k"
proof (induction n arbitrary: k rule: nbits.induct)
  case (1 n)
  show ?case
  proof (cases "n = 0")
    case True
    then show ?thesis by (simp add: nbits.simps)
  next
    case False
    with "1.prems" obtain j where k: "k = Suc j" by (cases k) auto
    with "1.prems" have "n div 2 < 2 ^ j" by (simp add: less_mult_imp_div_less mult.commute)
    with "1.IH" False have "nbits (n div 2) \<le> j" by blast
    with False k show ?thesis by (simp add: nbits.simps [of n])
  qed
qed

text \<open>Rounding moves a number by at most half a unit in the last place.\<close>

lemma rne_error:
  assumes "0 < k"
  shows "rne n k * 2 ^ k \<le> n + 2 ^ (k - 1)" and "n \<le> rne n k * 2 ^ k + 2 ^ (k - 1)"
proof -
  define q r h where "q = n div 2 ^ k" and "r = n mod 2 ^ k" and "h = (2::nat) ^ (k - 1)"
  have p: "(2::nat) ^ k = 2 * h"
    using assms unfolding h_def by (metis Suc_diff_1 power_Suc)
  have n: "n = 2 * (q * h) + r"
    using div_mult_mod_eq [of n "2 ^ k"] by (simp add: q_def r_def p)
  have r: "r < 2 * h"
    unfolding r_def p [symmetric] by simp
  have v: "rne n k = (if h < r \<or> (r = h \<and> odd q) then q + 1 else q)"
    using assms by (simp add: rne_def Let_def q_def r_def h_def)
  have e: "(q + 1) * 2 ^ k = 2 * (q * h) + 2 * h" "q * 2 ^ k = 2 * (q * h)"
    by (simp_all add: p algebra_simps)
  show "rne n k * 2 ^ k \<le> n + 2 ^ (k - 1)"
    unfolding v h_def [symmetric] using n r e by (auto simp del: mult_Suc)
  show "n \<le> rne n k * 2 ^ k + 2 ^ (k - 1)"
    unfolding v h_def [symmetric] using n r e by (auto simp del: mult_Suc)
qed

section \<open>The order on numbers that are not NaN\<close>

text \<open>The value of a number as a rational, with a class that puts the infinities outside.\<close>

definition f64_key :: "float64 \<Rightarrow> int \<times> rat" where
  "f64_key x =
     (case x of NaN \<Rightarrow> (0, 0) | Inf s \<Rightarrow> (if s then 1 else - 1, 0)
      | Fin m e \<Rightarrow> (0, of_int m * 2 powi e))"

lemma f64_gt_Fin:
  "f64_gt (Fin m e) (Fin m' e') \<longleftrightarrow> (of_int m * 2 powi e :: rat) > of_int m' * 2 powi e'"
proof -
  define b where "b = min e e'"
  have e: "(2::rat) powi e = 2 ^ nat (e - b) * 2 powi b"
    using power_int_add [of "2::rat" "int (nat (e - b))" b]
    by (simp add: b_def power_int_def split: if_splits)
  have e': "(2::rat) powi e' = 2 ^ nat (e' - b) * 2 powi b"
    using power_int_add [of "2::rat" "int (nat (e' - b))" b]
    by (simp add: b_def power_int_def split: if_splits)
  have pos: "(0::rat) < 2 powi b" by simp
  have "f64_gt (Fin m e) (Fin m' e') \<longleftrightarrow> m * 2 ^ nat (e - b) > m' * 2 ^ nat (e' - b)"
    by (simp add: b_def Let_def)
  also have "\<dots> \<longleftrightarrow> (of_int (m * 2 ^ nat (e - b)) :: rat) > of_int (m' * 2 ^ nat (e' - b))"
    by (simp only: of_int_less_iff)
  also have "\<dots> \<longleftrightarrow> (of_int m * 2 powi e :: rat) > of_int m' * 2 powi e'"
    using pos unfolding e e' by (simp add: mult.assoc [symmetric])
  finally show ?thesis .
qed

definition lex_gt :: "int \<times> rat \<Rightarrow> int \<times> rat \<Rightarrow> bool" where
  "lex_gt p q \<longleftrightarrow> fst p > fst q \<or> (fst p = fst q \<and> snd p > snd q)"

lemma f64_gt_key:
  "x \<noteq> NaN \<Longrightarrow> y \<noteq> NaN \<Longrightarrow> f64_gt x y \<longleftrightarrow> lex_gt (f64_key x) (f64_key y)"
  by (cases x; cases y)
    (simp_all add: f64_gt_Fin f64_key_def lex_gt_def del: f64_gt.simps(1))

lemma f64_gt_asym: "f64_gt x y \<Longrightarrow> \<not> f64_gt y x"
  by (cases "x = NaN \<or> y = NaN") (auto simp: f64_gt_key lex_gt_def)

lemma f64_gt_neg_trans:
  "x \<noteq> NaN \<Longrightarrow> y \<noteq> NaN \<Longrightarrow> z \<noteq> NaN \<Longrightarrow> \<not> f64_gt x y \<Longrightarrow> \<not> f64_gt y z \<Longrightarrow> \<not> f64_gt x z"
  by (auto simp: f64_gt_key lex_gt_def)

lemma round64_not_NaN [simp]: "round64 m e \<noteq> NaN"
  by (simp add: round64_def Let_def)

lemma round64_small:
  assumes "nbits (nat \<bar>m\<bar>) \<le> 53" and "-1074 \<le> e" and "e \<le> 971"
  shows "round64 m e = Fin m e"
proof -
  have "nat (max (int (nbits (nat \<bar>m\<bar>)) - 53) (- 1074 - e)) = 0"
    using assms by simp
  then show ?thesis
    using assms unfolding round64_def rne_def Let_def by (auto simp: sgn_mult_abs)
qed

lemma rne_le: "rne n k \<le> n + 1"
  by (auto simp: rne_def Let_def intro: le_SucI div_le_dividend)

text \<open>A 64-bit integer converts to a finite number.\<close>

lemma f64_of_int_Fin:
  assumes "in_int64 n"
  shows "\<exists>m e. f64_of_int n = Fin m e"
proof -
  define a where "a = nat \<bar>n\<bar>"
  define k where "k = nat (max (int (nbits a) - 53) (- 1074 - 0))"
  have a: "a < 2 ^ 64" using assms by (auto simp: a_def in_int64_def)
  have "nbits a \<le> 64" using a by (rule nbits_le)
  then have "int k \<le> 11" by (simp add: k_def)
  moreover have "rne a k < 2 ^ 65"
    using rne_le [of a k] a by simp
  then have "int (nbits (rne a k)) \<le> 65" using nbits_le by fastforce
  ultimately have "\<not> int (nbits (rne a k)) + (0 + int k) > 1024" by linarith
  then have "round64 n 0 = Fin (sgn n * int (rne a k)) (0 + int k)"
    unfolding round64_def Let_def a_def [symmetric] k_def [symmetric] by simp
  then show ?thesis by (simp add: f64_of_int_def)
qed

lemma round64_int [simp]: "\<bar>m\<bar> < 2 ^ 53 \<Longrightarrow> round64 m 0 = Fin m 0"
  by (rule round64_small) (auto intro!: nbits_le simp: nat_less_iff)

end
