(* ===== verification/Weak_Order.thy ===== *)
theory Weak_Order
  imports Prelude
begin

text \<open>
  A reference for sorting by a strict weak order, greatest elements first: insertion of one
  element behind all elements that are not smaller.  The sort is stable.
\<close>

fun insert_desc :: "('a \<Rightarrow> 'a \<Rightarrow> bool) \<Rightarrow> 'a \<Rightarrow> 'a list \<Rightarrow> 'a list" where
  "insert_desc gt x [] = [x]"
| "insert_desc gt x (y # ys) = (if gt x y then x # y # ys else y # insert_desc gt x ys)"

definition sort_desc :: "('a \<Rightarrow> 'a \<Rightarrow> bool) \<Rightarrow> 'a list \<Rightarrow> 'a list" where
  "sort_desc gt xs = foldl (\<lambda>acc x. insert_desc gt x acc) [] xs"

definition desc :: "('a \<Rightarrow> 'a \<Rightarrow> bool) \<Rightarrow> 'a list \<Rightarrow> bool" where
  "desc gt xs \<longleftrightarrow> sorted_wrt (\<lambda>a b. \<not> gt b a) xs"

lemma mset_insert_desc [simp]: "mset (insert_desc gt x ys) = add_mset x (mset ys)"
  by (induction ys) auto

lemma set_insert_desc [simp]: "set (insert_desc gt x ys) = insert x (set ys)"
  by (induction ys) auto

lemma length_insert_desc [simp]: "length (insert_desc gt x ys) = Suc (length ys)"
  by (induction ys) auto

lemma insert_desc_last: "gt x y \<Longrightarrow> insert_desc gt x (ys @ [y]) = insert_desc gt x ys @ [y]"
  by (induction ys) auto

lemma insert_desc_append: "\<forall>y \<in> set ys. \<not> gt x y \<Longrightarrow> insert_desc gt x ys = ys @ [x]"
  by (induction ys) auto

lemma sort_desc_Nil [simp]: "sort_desc gt [] = []"
  by (simp add: sort_desc_def)

lemma sort_desc_snoc: "sort_desc gt (xs @ [x]) = insert_desc gt x (sort_desc gt xs)"
  by (simp add: sort_desc_def)

lemma mset_sort_desc [simp]: "mset (sort_desc gt xs) = mset xs"
  by (induction xs rule: rev_induct) (auto simp: sort_desc_snoc)

lemma set_sort_desc [simp]: "set (sort_desc gt xs) = set xs"
  by (metis mset_sort_desc set_mset_mset)

lemma length_sort_desc [simp]: "length (sort_desc gt xs) = length xs"
  by (metis mset_sort_desc size_mset)

locale weak_order =
  fixes A :: "'a set" and gt :: "'a \<Rightarrow> 'a \<Rightarrow> bool"
  assumes asym: "x \<in> A \<Longrightarrow> y \<in> A \<Longrightarrow> gt x y \<Longrightarrow> \<not> gt y x"
    and neg_trans: "x \<in> A \<Longrightarrow> y \<in> A \<Longrightarrow> z \<in> A \<Longrightarrow> \<not> gt x y \<Longrightarrow> \<not> gt y z \<Longrightarrow> \<not> gt x z"
begin

definition same_rank :: "'a \<Rightarrow> 'a \<Rightarrow> bool" where
  "same_rank a b \<longleftrightarrow> \<not> gt a b \<and> \<not> gt b a"

lemma gt_rank: "x \<in> A \<Longrightarrow> y \<in> A \<Longrightarrow> z \<in> A \<Longrightarrow> gt x y \<Longrightarrow> \<not> gt z y \<Longrightarrow> gt x z"
  using neg_trans by blast

lemma desc_insert:
  "insert x (set ys) \<subseteq> A \<Longrightarrow> desc gt ys \<Longrightarrow> desc gt (insert_desc gt x ys)"
proof (induction ys)
  case Nil
  then show ?case by (simp add: desc_def)
next
  case (Cons y ys)
  show ?case
  proof (cases "gt x y")
    case True
    have "\<not> gt z x" if "z \<in> set ys" for z
    proof -
      have "\<not> gt z y" using that Cons.prems by (auto simp: desc_def)
      then have "gt x z" using gt_rank [of x y z] True that Cons.prems by auto
      then show ?thesis using asym [of x z] that Cons.prems by auto
    qed
    with True Cons.prems asym show ?thesis by (auto simp: desc_def)
  next
    case False
    with Cons show ?thesis by (auto simp: desc_def)
  qed
qed

lemma desc_sort: "set xs \<subseteq> A \<Longrightarrow> desc gt (sort_desc gt xs)"
proof (induction xs rule: rev_induct)
  case Nil
  show ?case by (simp add: desc_def)
next
  case (snoc x xs)
  then show ?case by (simp add: sort_desc_snoc desc_insert)
qed

lemma filter_rank_insert:
  assumes "insert a (insert x (set ys)) \<subseteq> A" and "desc gt ys"
  shows "filter (same_rank a) (insert_desc gt x ys) =
    filter (same_rank a) ys @ filter (same_rank a) [x]"
  using assms
proof (induction ys)
  case Nil
  then show ?case by simp
next
  case (Cons y ys)
  show ?case
  proof (cases "gt x y")
    case True
    have "\<not> same_rank a z" if "same_rank a x" "z \<in> set (y # ys)" for z
    proof -
      have "\<not> gt z y"
        using that(2) Cons.prems asym [of y y] by (auto simp: desc_def)
      then have "gt x z"
        using gt_rank True Cons.prems that(2) by auto
      then show ?thesis
        using that Cons.prems neg_trans [of x a z] by (auto simp: same_rank_def)
    qed
    then have "filter (same_rank a) (y # ys) = []" if "same_rank a x"
      using that by (auto simp: filter_empty_conv)
    with True show ?thesis by (cases "same_rank a x") auto
  next
    case False
    with Cons show ?thesis by (auto simp: desc_def)
  qed
qed

lemma sort_desc_stable:
  "a \<in> A \<Longrightarrow> set xs \<subseteq> A \<Longrightarrow> filter (same_rank a) (sort_desc gt xs) = filter (same_rank a) xs"
proof (induction xs rule: rev_induct)
  case Nil
  show ?case by simp
next
  case (snoc x xs)
  then show ?case by (simp add: sort_desc_snoc filter_rank_insert desc_sort)
qed

end

end
