(* ===== verification/Circuit_Constructor.thy ===== *)
theory Circuit_Constructor
  imports Circuit_Store GoFloat Weak_Order "HOL-Library.Signed_Division"
begin

text \<open>
  \<^verbatim>\<open>camo-circuit/constructor.go\<close> and \<^verbatim>\<open>randomInt\<close> of \<^verbatim>\<open>camo-circuit/main.go\<close>: the selection of
  the hops of a circuit from the active nodes that the gossip agent reports.  Every random
  draw is an explicit read of the random source, numbered in the order the code makes them.
\<close>

unbundle bit_operations_syntax

section \<open>Random integers\<close>

text \<open>
  Four bytes read big-endian into an \<^verbatim>\<open>int\<close>.  The word length is a parameter, because the
  width of \<^verbatim>\<open>int\<close> depends on the platform.
\<close>

definition be_word :: "bytes \<Rightarrow> 'w::len word" where
  "be_word b = push_bit 24 (ucast (b ! 0)) OR push_bit 16 (ucast (b ! 1))
     OR push_bit 8 (ucast (b ! 2)) OR ucast (b ! 3)"

text \<open>The absolute value and the remainder of \<^verbatim>\<open>randomInt\<close>, for an \<^verbatim>\<open>int\<close> of any width.\<close>

definition abs_rem :: "'w::len word \<Rightarrow> int \<Rightarrow> int" where
  "abs_rem v n = (if sint v < 0 then sint (- v) else sint v) smod n"

definition randomInt :: "int \<Rightarrow> entropy \<Rightarrow> nat \<Rightarrow> goerr + int" where
  "randomInt n ent k =
     (if n \<le> 0 then Inl (Errorf ''n must be positive'')
      else case rand_Read ent k 4 of
        Inl e \<Rightarrow> Inl e
      | Inr b \<Rightarrow> Inr (abs_rem (be_word b :: 64 word) n))"

section \<open>Nodes and their order\<close>

definition minNetworkSize :: int where "minNetworkSize = 3"

definition minJurisdictions :: int where "minJurisdictions = 3"

text \<open>The controller's mirror of a gossip record (the nested structs are flattened).\<close>

record cNodeRecord =
  cn_ServerID :: string
  cn_WireGuardKey :: string
  cn_WireGuard :: string
  cn_Jurisdictions :: "string list"
  cn_Regions :: "string list"
  cn_Uptime30d :: float64
  cn_SIMPoolSize :: int
  cn_ExitNode :: bool
  cn_MaxCircuits :: int

definition score :: "cNodeRecord \<Rightarrow> float64" where
  "score n = f64_add (f64_mul (cn_Uptime30d n) (f64_of_int 100)) (f64_of_int (cn_SIMPoolSize n))"

text \<open>
  The inner loop of the insertion sort runs from \<open>j = i\<close> down to 1 and never leaves early;
  the outer loop inserts the elements at positions 1, 2, \<dots>, one after the other.
\<close>

fun sift_down :: "cNodeRecord list \<Rightarrow> nat \<Rightarrow> cNodeRecord list" where
  "sift_down out 0 = out"
| "sift_down out (Suc j) =
     (if f64_gt (score (out ! Suc j)) (score (out ! j))
      then sift_down (out[Suc j := out ! j, j := out ! Suc j]) j
      else sift_down out j)"

definition scoreNodes :: "cNodeRecord list \<Rightarrow> cNodeRecord list" where
  "scoreNodes nodes = fold (\<lambda>i out. sift_down out i) [1..<length nodes] nodes"

definition primaryJurisdiction :: "cNodeRecord \<Rightarrow> string" where
  "primaryJurisdiction n = (case cn_Jurisdictions n of [] \<Rightarrow> [] | j # _ \<Rightarrow> j)"

definition jurisdictionCount :: "cNodeRecord list \<Rightarrow> int" where
  "jurisdictionCount nodes =
     int (length (fold (\<lambda>n seen. mput (primaryJurisdiction n) True seen) nodes []))"

fun isIn :: "cNodeRecord list \<Rightarrow> string \<Rightarrow> bool" where
  "isIn [] serverID = False"
| "isIn (h # hops) serverID = (if cn_ServerID h = serverID then True else isIn hops serverID)"

section \<open>Selecting the middle hops\<close>

text \<open>
  The nodes of the front of the list that differ from the last jurisdiction, or the whole
  front when there is none.
\<close>

definition eligible_hops :: "cNodeRecord list \<Rightarrow> string \<Rightarrow> cNodeRecord list" where
  "eligible_hops scored lastJ =
     (let pool = take (min 3 (length scored)) scored;
          el = filter (\<lambda>n. primaryJurisdiction n \<noteq> lastJ) pool
      in if el = [] then pool else el)"

text \<open>On a 64-bit platform the value read is never negative, so the result is in range.\<close>

lemma uint_be_word: "uint (be_word b :: 64 word) < 2 ^ 32"
proof -
  have "take_bit 32 (be_word b :: 64 word) = be_word b"
    by (rule bit_word_eqI) (auto simp: be_word_def bit_simps dest: bit_imp_le_length)
  then have "uint (be_word b :: 64 word) = take_bit 32 (uint (be_word b :: 64 word))"
    by (metis unsigned_take_bit_eq)
  then show ?thesis
    by (metis take_bit_int_less_exp)
qed

lemma sint_be_word: "sint (be_word b :: 64 word) = uint (be_word b :: 64 word)"
proof -
  have "0 \<le> uint (be_word b :: 64 word)" by simp
  then have "- (2 ^ 63) \<le> uint (be_word b :: 64 word)" by (simp add: order_trans [of _ 0])
  then show ?thesis
    using uint_be_word [of b] by (simp add: sint_uint signed_take_bit_int_eq_self)
qed

lemma abs_rem_be_word:
  "0 < n \<Longrightarrow> abs_rem (be_word b :: 64 word) n = uint (be_word b :: 64 word) mod n"
  by (simp add: abs_rem_def sint_be_word smod_mod_positive)

lemma randomInt_Inr: "randomInt n ent k = Inr v \<Longrightarrow> 0 \<le> v \<and> v < n"
  by (auto simp: randomInt_def abs_rem_be_word split: if_splits sum.splits)

lemma eligible_hops_subset: "set (eligible_hops scored lastJ) \<subseteq> set scored"
  by (auto simp: eligible_hops_def Let_def dest: in_set_takeD)

lemma eligible_hops_nonempty: "scored \<noteq> [] \<Longrightarrow> eligible_hops scored lastJ \<noteq> []"
  by (auto simp: eligible_hops_def Let_def)

lemma eligible_choice:
  assumes "randomInt (int (length (eligible_hops scored lastJ))) ent k = Inr idx"
  shows "eligible_hops scored lastJ ! nat idx \<in> set scored"
proof -
  have "nat idx < length (eligible_hops scored lastJ)"
    using randomInt_Inr [OF assms] by linarith
  then show ?thesis
    using eligible_hops_subset nth_mem by blast
qed

text \<open>
  The selection loop; \<open>k\<close> counts the reads of the random source.  It returns the number of
  the next read together with the result.
\<close>

function middle_loop :: "int \<Rightarrow> entropy \<Rightarrow> cNodeRecord list \<Rightarrow> string \<Rightarrow> cNodeRecord list \<Rightarrow> nat
    \<Rightarrow> goerr + cNodeRecord list \<times> nat" where
  "middle_loop n ent selected lastJ scored k =
     (if int (length selected) < n \<and> scored \<noteq> [] then
        (case randomInt (int (length (eligible_hops scored lastJ))) ent k of
           Inl e \<Rightarrow> Inl e
         | Inr idx \<Rightarrow>
             (let chosen = eligible_hops scored lastJ ! nat idx
              in middle_loop n ent (selected @ [chosen]) (primaryJurisdiction chosen)
                   (filter (\<lambda>m. cn_ServerID m \<noteq> cn_ServerID chosen) scored) (Suc k)))
      else Inr (selected, k))"
  by pat_completeness auto
termination
proof (relation "measure (\<lambda>(n, ent, selected, lastJ, scored, k). length scored)", goal_cases)
  case 1
  show ?case by simp
next
  case (2 n ent selected lastJ scored k idx chosen)
  then have "chosen \<in> set scored"
    using eligible_choice by metis
  then have "length (filter (\<lambda>m. cn_ServerID m \<noteq> cn_ServerID chosen) scored) < length scored"
    by (rule length_filter_less) simp
  then show ?case by simp
qed

declare middle_loop.simps [simp del]

definition selectMiddleHops :: "cNodeRecord list \<Rightarrow> int \<Rightarrow> entropy \<Rightarrow> nat
    \<Rightarrow> goerr + cNodeRecord list \<times> nat" where
  "selectMiddleHops candidates n ent k =
     (case middle_loop n ent [] [] (scoreNodes candidates) k of
        Inl e \<Rightarrow> Inl e
      | Inr (selected, k') \<Rightarrow>
          if int (length selected) < n
          then Inl (Errorf ''insufficient nodes for circuit construction'')
          else Inr (selected, k'))"

section \<open>Identifiers\<close>

definition hex_digit :: "nat \<Rightarrow> char" where
  "hex_digit v = ''0123456789abcdef'' ! (v mod 16)"

fun hex_bytes :: "bytes \<Rightarrow> string" where
  "hex_bytes [] = []"
| "hex_bytes (b # bs) = hex_digit (unat b div 16) # hex_digit (unat b) # hex_bytes bs"

text \<open>
  The version and variant bits are set in bytes 6 and 8.  The widths of the format are those
  of the byte groups, so they add nothing.
\<close>

definition uuid_of :: "bytes \<Rightarrow> string" where
  "uuid_of b0 =
     (let b1 = b0[6 := (b0 ! 6 AND 0x0f) OR 0x40];
          b = b1[8 := (b1 ! 8 AND 0x3f) OR 0x80]
      in hex_bytes (take 4 b) @ ''-'' @ hex_bytes (take 2 (drop 4 b)) @ ''-''
         @ hex_bytes (take 2 (drop 6 b)) @ ''-'' @ hex_bytes (take 2 (drop 8 b)) @ ''-''
         @ hex_bytes (take 6 (drop 10 b)))"

text \<open>A failed read is ignored and leaves the buffer zero.\<close>

definition mustUUID :: "entropy \<Rightarrow> nat \<Rightarrow> string" where
  "mustUUID ent k = uuid_of (case rand_Read ent k 16 of Inl e \<Rightarrow> replicate 16 0 | Inr b \<Rightarrow> b)"

section \<open>Building a circuit\<close>

definition mk_hop :: "nat \<Rightarrow> bool \<Rightarrow> cNodeRecord \<Rightarrow> Hop" where
  "mk_hop i exit n =
     \<lparr>hop_ServerID = cn_ServerID n, hop_WireGuardAddress = cn_WireGuard n,
      hop_WireGuardPubKey = cn_WireGuardKey n, hop_Jurisdiction = primaryJurisdiction n,
      hop_HopIndex = int i, hop_IsExit = exit\<rparr>"

text \<open>The nodes \<^verbatim>\<open>build\<close> considers for the exit, after the middle hops are fixed.\<close>

definition exit_candidates :: "cNodeRecord list \<Rightarrow> cNodeRecord list \<Rightarrow> cNodeRecord list" where
  "exit_candidates candidates middle =
     (let lastJ = (if middle = [] then [] else primaryJurisdiction (last middle))
      in filter (\<lambda>n. cn_ExitNode n \<and> \<not> isIn middle (cn_ServerID n)
            \<and> primaryJurisdiction n \<noteq> lastJ) candidates)"

definition build :: "string \<Rightarrow> cNodeRecord list \<Rightarrow> string \<Rightarrow> entropy \<Rightarrow> instant \<Rightarrow> goerr + Circuit" where
  "build ownServerID nodes deviceIMSI ent now =
     (let candidates = filter (\<lambda>n. cn_ServerID n \<noteq> ownServerID) nodes in
      if int (length candidates) < minNetworkSize
      then Inl (Errorf ''network below minimum viable size'')
      else if jurisdictionCount candidates < minJurisdictions
      then Inl (Errorf ''insufficient jurisdictional diversity in active nodes'')
      else case randomInt (maxHops - minHops + 1) ent 0 of
        Inl e \<Rightarrow> Inl e
      | Inr extra \<Rightarrow>
      (case selectMiddleHops candidates (minHops + extra - 1) ent 1 of
        Inl e \<Rightarrow> Inl e
      | Inr (middleHops, k) \<Rightarrow>
      (let exits = exit_candidates candidates middleHops in
       if exits = [] then Inl (Errorf ''no eligible exit nodes available'')
       else case randomInt (int (length exits)) ent k of
         Inl e \<Rightarrow> Inl e
       | Inr exitIdx \<Rightarrow>
       (case newSessionToken ent (k + 1) of
         Inl e \<Rightarrow> Inl e
       | Inr token \<Rightarrow>
         let hops = map (\<lambda>(i, n). mk_hop i False n) (enumerate 0 middleHops);
             hops' = hops @ [mk_hop (length hops) True (exits ! nat exitIdx)]
         in Inr \<lparr>ci_CircuitID = mustUUID ent (k + 2), ci_DeviceIMSI = deviceIMSI,
              ci_SessionToken = token, ci_Hops = hops', ci_CreatedAt = now,
              ci_RotateAt = now + chainRotationInterval\<rparr>))))"

section \<open>The insertion sort\<close>

definition node_gt :: "cNodeRecord \<Rightarrow> cNodeRecord \<Rightarrow> bool" where
  "node_gt a b \<longleftrightarrow> f64_gt (score a) (score b)"

text \<open>
  A node whose uptime is a finite number and whose pool size is an \<^verbatim>\<open>int\<close>, as every node
  decoded from JSON is.
\<close>

definition node_ok :: "cNodeRecord \<Rightarrow> bool" where
  "node_ok n \<longleftrightarrow> (case cn_Uptime30d n of Fin m e \<Rightarrow> True | _ \<Rightarrow> False) \<and> in_int64 (cn_SIMPoolSize n)"

lemma f64_add_not_NaN: "x \<noteq> NaN \<Longrightarrow> f64_add x (Fin m e) \<noteq> NaN"
  by (cases x) (auto simp: Let_def)

lemma score_not_NaN: "node_ok n \<Longrightarrow> score n \<noteq> NaN"
proof -
  assume ok: "node_ok n"
  obtain m e where u: "cn_Uptime30d n = Fin m e"
    using ok by (auto simp: node_ok_def split: float64.splits)
  obtain p q where p: "f64_of_int (cn_SIMPoolSize n) = Fin p q"
    using ok f64_of_int_Fin [of "cn_SIMPoolSize n"] by (auto simp: node_ok_def)
  obtain h g where h: "f64_of_int 100 = Fin h g"
    using f64_of_int_Fin [of 100] by (auto simp: in_int64_def)
  show ?thesis
    unfolding score_def p u h by (rule f64_add_not_NaN) simp
qed

interpretation nodes: weak_order "{n. score n \<noteq> NaN}" node_gt
  by unfold_locales (auto simp: node_gt_def dest: f64_gt_asym f64_gt_neg_trans)

lemma sift_down_insert:
  assumes "set (ys @ [x]) \<subseteq> {n. score n \<noteq> NaN}" and "desc node_gt ys"
  shows "sift_down (ys @ x # zs) (length ys) = insert_desc node_gt x ys @ zs"
  using assms
proof (induction ys arbitrary: x zs rule: rev_induct)
  case Nil
  then show ?case by simp
next
  case (snoc y ys)
  have d: "desc node_gt ys" and below: "\<forall>a \<in> set ys. \<not> node_gt y a"
    using snoc.prems(2) by (auto simp: desc_def sorted_wrt_append)
  have nths: "((ys @ [y]) @ x # zs) ! Suc (length ys) = x" "((ys @ [y]) @ x # zs) ! length ys = y"
    by (simp_all add: nth_append)
  show ?case
  proof (cases "node_gt x y")
    case True
    have "((ys @ [y]) @ x # zs)[Suc (length ys) := y, length ys := x] = ys @ x # y # zs"
      by (simp add: list_update_append)
    with True nths snoc.IH [of x "y # zs"] snoc.prems(1) d show ?thesis
      by (simp add: node_gt_def [symmetric] insert_desc_last)
  next
    case False
    then have "\<forall>a \<in> set (ys @ [y]). \<not> node_gt x a"
      using snoc.prems(1) below nodes.neg_trans [of x y] by auto
    then have "insert_desc node_gt x (ys @ [y]) = ys @ [y, x]"
      by (simp add: insert_desc_append)
    with False nths snoc.IH [of y "x # zs"] snoc.prems(1) d below show ?thesis
      by (simp add: node_gt_def [symmetric] insert_desc_append)
  qed
qed

lemma scoreNodes_sort_desc:
  assumes "\<forall>n \<in> set nodes. score n \<noteq> NaN"
  shows "scoreNodes nodes = sort_desc node_gt nodes"
proof -
  have "fold (\<lambda>i out. sift_down out i) [1..<m] nodes =
      sort_desc node_gt (take m nodes) @ drop m nodes" if "1 \<le> m" "m \<le> length nodes" for m
    using that
  proof (induction m rule: nat_induct_at_least)
    case base
    then show ?case by (cases nodes) (auto simp: sort_desc_def)
  next
    case (Suc m)
    let ?s = "sort_desc node_gt (take m nodes)"
    have split: "drop m nodes = nodes ! m # drop (Suc m) nodes"
      using Suc.prems by (simp add: Cons_nth_drop_Suc)
    have len: "length ?s = m" using Suc.prems by simp
    have sub: "set (?s @ [nodes ! m]) \<subseteq> {n. score n \<noteq> NaN}"
      using assms Suc.prems by (auto dest: in_set_takeD)
    have "fold (\<lambda>i out. sift_down out i) [1..<Suc m] nodes = sift_down (?s @ drop m nodes) m"
      using Suc by simp
    also have "\<dots> = insert_desc node_gt (nodes ! m) ?s @ drop (Suc m) nodes"
      using sift_down_insert [OF sub nodes.desc_sort, of "drop (Suc m) nodes"] sub
      unfolding split len by simp
    also have "\<dots> = sort_desc node_gt (take (Suc m) nodes) @ drop (Suc m) nodes"
      using Suc.prems by (simp add: take_Suc_conv_app_nth sort_desc_snoc)
    finally show ?case .
  qed
  from this [of "length nodes"] show ?thesis
    by (cases nodes) (simp_all add: scoreNodes_def)
qed

lemma mset_sift_down: "i < length out \<Longrightarrow> mset (sift_down out i) = mset out"
proof (induction out i rule: sift_down.induct)
  case (1 out)
  show ?case by simp
next
  case (2 out j)
  then show ?case by (auto simp: mset_swap)
qed

lemma mset_scoreNodes [simp]: "mset (scoreNodes nodes) = mset nodes"
proof -
  have "mset (fold (\<lambda>i out. sift_down out i) is nodes) = mset nodes"
    if "set is \<subseteq> {..<length nodes}" for "is"
    using that
  proof (induction "is" rule: rev_induct)
    case Nil
    show ?case by simp
  next
    case (snoc i "is")
    then have "i < length (fold (\<lambda>i out. sift_down out i) is nodes)"
      by (auto dest: mset_eq_length)
    with snoc show ?case by (simp add: mset_sift_down)
  qed
  then show ?thesis unfolding scoreNodes_def by (simp add: subset_iff)
qed

lemma set_scoreNodes [simp]: "set (scoreNodes nodes) = set nodes"
  by (metis mset_scoreNodes set_mset_mset)

section \<open>The middle hops\<close>

lemma isIn_iff [simp]: "isIn hops i \<longleftrightarrow> i \<in> cn_ServerID ` set hops"
  by (induction hops) auto

lemma middle_loop_unfold:
  "int (length selected) < n \<Longrightarrow> scored \<noteq> [] \<Longrightarrow>
   randomInt (int (length (eligible_hops scored lastJ))) ent k = Inr idx \<Longrightarrow>
   chosen = eligible_hops scored lastJ ! nat idx \<Longrightarrow>
   middle_loop n ent selected lastJ scored k =
     middle_loop n ent (selected @ [chosen]) (primaryJurisdiction chosen)
       (filter (\<lambda>m. cn_ServerID m \<noteq> cn_ServerID chosen) scored) (Suc k)"
  by (subst middle_loop.simps) (simp add: Let_def)

text \<open>
  Induction along the selection loop: the loop has stopped, or one more node, drawn from the
  eligible ones, is appended and all nodes with its identifier are dropped.
\<close>

lemma middle_loop_induct [consumes 1, case_names stop pick]:
  assumes run: "middle_loop n ent sel lastJ scored k = Inr (res, k')"
    and stop: "\<And>sel lastJ scored. \<not> (int (length sel) < n \<and> scored \<noteq> []) \<Longrightarrow> P sel lastJ scored sel"
    and pick: "\<And>sel lastJ scored chosen res.
      int (length sel) < n \<Longrightarrow> scored \<noteq> [] \<Longrightarrow>
      chosen \<in> set (eligible_hops scored lastJ) \<Longrightarrow> chosen \<in> set scored \<Longrightarrow>
      P (sel @ [chosen]) (primaryJurisdiction chosen)
        (filter (\<lambda>m. cn_ServerID m \<noteq> cn_ServerID chosen) scored) res \<Longrightarrow>
      P sel lastJ scored res"
  shows "P sel lastJ scored res"
  using run
proof (induction "length scored" arbitrary: sel lastJ scored k rule: less_induct)
  case less
  show ?case
  proof (cases "int (length sel) < n \<and> scored \<noteq> []")
    case False
    then have "res = sel"
      using less.prems by (subst (asm) middle_loop.simps) auto
    with False stop show ?thesis by blast
  next
    case True
    then obtain idx where idx: "randomInt (int (length (eligible_hops scored lastJ))) ent k = Inr idx"
      using less.prems by (subst (asm) middle_loop.simps) (auto split: sum.splits)
    define chosen where "chosen = eligible_hops scored lastJ ! nat idx"
    have mem: "chosen \<in> set (eligible_hops scored lastJ)" "chosen \<in> set scored"
      using randomInt_Inr [OF idx] eligible_choice [OF idx] by (auto simp: chosen_def)
    have "length (filter (\<lambda>m. cn_ServerID m \<noteq> cn_ServerID chosen) scored) < length scored"
      using mem(2) by (rule length_filter_less) simp
    from less.hyps [OF this] middle_loop_unfold [OF _ _ idx chosen_def, of sel n] less.prems True
    have "P (sel @ [chosen]) (primaryJurisdiction chosen)
        (filter (\<lambda>m. cn_ServerID m \<noteq> cn_ServerID chosen) scored) res"
      by simp
    with True mem show ?thesis by (blast intro: pick)
  qed
qed

lemma middle_loop_succeeds:
  assumes "entropy_ok ent"
  shows "\<exists>res k'. middle_loop n ent sel lastJ scored k = Inr (res, k')"
proof (induction "length scored" arbitrary: sel lastJ scored k rule: less_induct)
  case less
  show ?case
  proof (cases "int (length sel) < n \<and> scored \<noteq> []")
    case False
    then show ?thesis by (subst middle_loop.simps) auto
  next
    case True
    let ?el = "eligible_hops scored lastJ"
    have "0 < int (length ?el)" using True eligible_hops_nonempty by simp
    then obtain idx where idx: "randomInt (int (length ?el)) ent k = Inr idx"
      using rand_Read_ok [OF assms, of k 4] by (auto simp: randomInt_def)
    have "length (filter (\<lambda>m. cn_ServerID m \<noteq> cn_ServerID (?el ! nat idx)) scored) < length scored"
      using eligible_choice [OF idx] by (rule length_filter_less) simp
    from less.hyps [OF this] middle_loop_unfold [OF _ _ idx refl, of sel n] True
    show ?thesis by simp
  qed
qed

lemma middle_loop_sound:
  assumes "middle_loop n ent sel lastJ scored k = Inr (res, k')"
  shows "\<exists>ys. res = sel @ ys \<and> set ys \<subseteq> set scored \<and> distinct (map cn_ServerID ys) \<and>
    (int (length sel) \<le> n \<longrightarrow> int (length res) \<le> n) \<and>
    (int (length res) < n \<longrightarrow> cn_ServerID ` set scored \<subseteq> cn_ServerID ` set ys)"
  using assms
proof (induction rule: middle_loop_induct)
  case (stop sel lastJ scored)
  then show ?case by auto
next
  case (pick sel lastJ scored chosen res)
  then obtain ys where ys: "res = (sel @ [chosen]) @ ys"
      "set ys \<subseteq> {m \<in> set scored. cn_ServerID m \<noteq> cn_ServerID chosen}" "distinct (map cn_ServerID ys)"
      "int (length (sel @ [chosen])) \<le> n \<longrightarrow> int (length res) \<le> n"
      "int (length res) < n \<longrightarrow>
        cn_ServerID ` {m \<in> set scored. cn_ServerID m \<noteq> cn_ServerID chosen} \<subseteq> cn_ServerID ` set ys"
    by auto
  show ?case
    by (rule exI [of _ "chosen # ys"]) (use ys pick.hyps in auto)
qed

lemma middle_loop_length:
  assumes "middle_loop n ent [] [] scored k = Inr (res, k')" and "0 \<le> n"
  shows "int (length res) = min n (int (card (cn_ServerID ` set scored)))"
proof -
  have res: "set res \<subseteq> set scored" "distinct (map cn_ServerID res)" "int (length res) \<le> n"
    "int (length res) < n \<longrightarrow> cn_ServerID ` set scored \<subseteq> cn_ServerID ` set res"
    using middle_loop_sound [OF assms(1)] assms(2) by auto
  have len: "length res = card (cn_ServerID ` set res)"
    using distinct_card [OF res(2)] by simp
  have le: "card (cn_ServerID ` set res) \<le> card (cn_ServerID ` set scored)"
    using res(1) by (intro card_mono) auto
  show ?thesis
  proof (cases "int (length res) < n")
    case True
    then have "card (cn_ServerID ` set scored) \<le> card (cn_ServerID ` set res)"
      using res(4) by (intro card_mono) auto
    with True le len show ?thesis by simp
  next
    case False
    with res(3) le len show ?thesis by simp
  qed
qed

lemma eligible_relaxed:
  assumes "m \<in> set (eligible_hops scored lastJ)" and "primaryJurisdiction m = lastJ"
  shows "\<forall>m' \<in> set (take 3 scored). primaryJurisdiction m' = lastJ"
  using assms by (auto simp: eligible_hops_def Let_def min_def filter_empty_conv split: if_splits)

text \<open>
  After the first \<open>i + 1\<close> hops of \<open>res\<close> were taken from the scored list \<open>all\<close>, the three best
  remaining nodes were all in the jurisdiction of hop \<open>i\<close>.
\<close>

definition relaxed_at :: "cNodeRecord list \<Rightarrow> cNodeRecord list \<Rightarrow> nat \<Rightarrow> bool" where
  "relaxed_at all res i \<longleftrightarrow>
     (\<forall>m \<in> set (take 3 (filter (\<lambda>m. cn_ServerID m \<notin> cn_ServerID ` set (take (Suc i) res)) all)).
        primaryJurisdiction m = primaryJurisdiction (res ! i))"

lemma relaxed_now:
  assumes "chosen \<in> set (eligible_hops scored lastJ)" and "res = sel @ chosen # ys"
    and "scored = filter (\<lambda>m. cn_ServerID m \<notin> cn_ServerID ` set sel) all"
    and "lastJ = primaryJurisdiction (last sel)" and "length sel = Suc i"
    and "primaryJurisdiction (res ! Suc i) = primaryJurisdiction (res ! i)"
  shows "relaxed_at all res i"
proof -
  have "sel \<noteq> []" using assms(5) by auto
  then have sel: "res ! Suc i = chosen" "res ! i = last sel" "take (Suc i) res = sel" "sel \<noteq> []"
    using assms(2,5) last_conv_nth [of sel] by (auto simp: nth_append)
  have "\<forall>m' \<in> set (take 3 scored). primaryJurisdiction m' = lastJ"
    by (rule eligible_relaxed [OF assms(1)]) (use assms(4,6) sel in simp)
  then show ?thesis
    unfolding relaxed_at_def sel assms(3) [symmetric] assms(4) .
qed

lemma middle_loop_diverse_aux:
  assumes "middle_loop n ent sel lastJ scored k = Inr (res, k')"
  shows "(\<exists>ys. res = sel @ ys) \<and>
    (scored = filter (\<lambda>m. cn_ServerID m \<notin> cn_ServerID ` set sel) all \<longrightarrow>
     (sel \<noteq> [] \<longrightarrow> lastJ = primaryJurisdiction (last sel)) \<longrightarrow>
     (\<forall>i. length sel \<le> Suc i \<longrightarrow> Suc i < length res \<longrightarrow>
        primaryJurisdiction (res ! Suc i) = primaryJurisdiction (res ! i) \<longrightarrow> relaxed_at all res i))"
  using assms
proof (induction rule: middle_loop_induct)
  case (stop sel lastJ scored)
  then show ?case by simp
next
  case (pick sel lastJ scored chosen res)
  obtain ys where res: "res = sel @ chosen # ys"
    using pick.IH by auto
  show ?case
  proof (intro conjI impI allI)
    show "\<exists>ys. res = sel @ ys" using res by blast
  next
    fix i
    assume sc: "scored = filter (\<lambda>m. cn_ServerID m \<notin> cn_ServerID ` set sel) all"
      and last: "sel \<noteq> [] \<longrightarrow> lastJ = primaryJurisdiction (last sel)"
      and i: "length sel \<le> Suc i" "Suc i < length res"
      and j: "primaryJurisdiction (res ! Suc i) = primaryJurisdiction (res ! i)"
    show "relaxed_at all res i"
    proof (cases "length sel = Suc i")
      case True
      moreover from True have "lastJ = primaryJurisdiction (last sel)" using last by auto
      ultimately show ?thesis using relaxed_now [OF pick.hyps(3) res sc] j by blast
    next
      case False
      have "filter (\<lambda>m. cn_ServerID m \<noteq> cn_ServerID chosen) scored =
          filter (\<lambda>m. cn_ServerID m \<notin> cn_ServerID ` set (sel @ [chosen])) all"
        using sc by (auto intro: filter_cong)
      with pick.IH False i j show ?thesis by auto
    qed
  qed
qed

lemma middle_loop_diverse:
  assumes "middle_loop n ent [] [] all k = Inr (res, k')" and "Suc i < length res"
    and "primaryJurisdiction (res ! Suc i) = primaryJurisdiction (res ! i)"
  shows "relaxed_at all res i"
  using middle_loop_diverse_aux [OF assms(1), of all] assms(2,3) by simp

section \<open>What a built circuit looks like\<close>

lemma selectMiddleHops_sound:
  assumes "selectMiddleHops candidates n ent k = Inr (middle, k')" and "0 \<le> n"
  shows "int (length middle) = n" and "set middle \<subseteq> set candidates"
    and "distinct (map cn_ServerID middle)"
proof -
  have run: "middle_loop n ent [] [] (scoreNodes candidates) k = Inr (middle, k')"
    and len: "\<not> int (length middle) < n"
    using assms(1) by (auto simp: selectMiddleHops_def split: sum.splits if_splits prod.splits)
  have "int (length middle) \<le> n" "set middle \<subseteq> set candidates" "distinct (map cn_ServerID middle)"
    using middle_loop_sound [OF run] assms(2) by auto
  with len show "int (length middle) = n" and "set middle \<subseteq> set candidates"
    and "distinct (map cn_ServerID middle)" by auto
qed

lemma selectMiddleHops_iff:
  assumes "entropy_ok ent" and "0 \<le> n"
  shows "(\<exists>middle k'. selectMiddleHops candidates n ent k = Inr (middle, k')) \<longleftrightarrow>
    n \<le> int (card (cn_ServerID ` set candidates))"
proof -
  obtain res k' where run: "middle_loop n ent [] [] (scoreNodes candidates) k = Inr (res, k')"
    using middle_loop_succeeds [OF assms(1)] by blast
  have "int (length res) = min n (int (card (cn_ServerID ` set candidates)))"
    using middle_loop_length [OF run assms(2)] by simp
  then show ?thesis
    by (auto simp: selectMiddleHops_def run)
qed

text \<open>The circuit \<^verbatim>\<open>build\<close> assembles once all choices are made.\<close>

definition assembled :: "cNodeRecord list \<Rightarrow> cNodeRecord \<Rightarrow> string \<Rightarrow> string \<Rightarrow> string \<Rightarrow> instant \<Rightarrow> Circuit" where
  "assembled middle ex uuid imsi token now =
     \<lparr>ci_CircuitID = uuid, ci_DeviceIMSI = imsi, ci_SessionToken = token,
      ci_Hops = map (\<lambda>(i, n). mk_hop i False n) (enumerate 0 middle) @ [mk_hop (length middle) True ex],
      ci_CreatedAt = now, ci_RotateAt = now + chainRotationInterval\<rparr>"

lemma build_InrD:
  assumes "build own nodes imsi ent now = Inr c"
  obtains extra middle k ei token where
    "randomInt 3 ent 0 = Inr extra"
    "selectMiddleHops (filter (\<lambda>n. cn_ServerID n \<noteq> own) nodes) (2 + extra) ent 1 = Inr (middle, k)"
    "randomInt (int (length (exit_candidates (filter (\<lambda>n. cn_ServerID n \<noteq> own) nodes) middle))) ent k = Inr ei"
    "newSessionToken ent (k + 1) = Inr token"
    "c = assembled middle (exit_candidates (filter (\<lambda>n. cn_ServerID n \<noteq> own) nodes) middle ! nat ei)
       (mustUUID ent (k + 2)) imsi token now"
  using assms
  by (auto simp: build_def Let_def assembled_def minHops_def maxHops_def algebra_simps
      split: if_splits sum.splits prod.splits)

lemma build_shape:
  assumes "build own nodes imsi ent now = Inr c"
  obtains middle ex uuid token where
    "c = assembled middle ex uuid imsi token now"
    and "2 \<le> length middle" and "length middle \<le> 4"
    and "set (middle @ [ex]) \<subseteq> set nodes" and "own \<notin> cn_ServerID ` set (middle @ [ex])"
    and "distinct (map cn_ServerID (middle @ [ex]))"
    and "cn_ExitNode ex" and "primaryJurisdiction ex \<noteq> primaryJurisdiction (last middle)"
    and "length token = 24"
    and "\<And>extra. randomInt 3 ent 0 = Inr extra \<Longrightarrow> int (length middle) = 2 + extra"
proof -
  let ?cands = "filter (\<lambda>n. cn_ServerID n \<noteq> own) nodes"
  obtain extra middle k ei token where run: "randomInt 3 ent 0 = Inr extra"
    "selectMiddleHops ?cands (2 + extra) ent 1 = Inr (middle, k)"
    "randomInt (int (length (exit_candidates ?cands middle))) ent k = Inr ei"
    "newSessionToken ent (k + 1) = Inr token"
    and c: "c = assembled middle (exit_candidates ?cands middle ! nat ei) (mustUUID ent (k + 2)) imsi token now"
    using assms by (rule build_InrD)
  have extra: "0 \<le> extra" "extra < 3" using randomInt_Inr [OF run(1)] by auto
  have len: "int (length middle) = 2 + extra"
    using selectMiddleHops_sound(1) [OF run(2)] extra by simp
  have mid: "set middle \<subseteq> set ?cands" "distinct (map cn_ServerID middle)"
    using selectMiddleHops_sound(2,3) [OF run(2)] extra by auto
  let ?ex = "exit_candidates ?cands middle ! nat ei"
  have "nat ei < length (exit_candidates ?cands middle)"
    using randomInt_Inr [OF run(3)] by linarith
  then have ex: "?ex \<in> set (exit_candidates ?cands middle)" by (rule nth_mem)
  have tok: "length token = 24"
    using run(4) rand_Read_length
    by (fastforce simp: newSessionToken_def sessionTokenLen_def length_EncodeToString_Std split: sum.splits)
  show ?thesis
    by (rule that [OF c])
      (use run(1) len extra mid ex tok in \<open>auto simp: exit_candidates_def Let_def split: if_splits\<close>)
qed

lemma assembled_simps [simp]:
  "ci_DeviceIMSI (assembled middle ex uuid imsi token now) = imsi"
  "ci_SessionToken (assembled middle ex uuid imsi token now) = token"
  "ci_CreatedAt (assembled middle ex uuid imsi token now) = now"
  "ci_RotateAt (assembled middle ex uuid imsi token now) = now + chainRotationInterval"
  "length (ci_Hops (assembled middle ex uuid imsi token now)) = Suc (length middle)"
  by (simp_all add: assembled_def)

lemma enumerate_shift: "map (\<lambda>(i, n). f i n) (enumerate k xs) = map (\<lambda>i. f (k + i) (xs ! i)) [0..<length xs]"
  by (rule nth_equalityI) (simp_all add: nth_enumerate_eq)

lemma assembled_hops:
  "ci_Hops (assembled middle ex uuid imsi token now) =
     map (\<lambda>i. mk_hop i (i = length middle) ((middle @ [ex]) ! i)) [0..<Suc (length middle)]"
  by (simp add: assembled_def enumerate_shift nth_append)

lemma map_nth_snoc: "map (\<lambda>i. f ((xs @ [x]) ! i)) [0..<Suc (length xs)] = map f (xs @ [x])"
  by (rule nth_equalityI) (simp_all add: nth_append less_Suc_eq)

lemma map_hop_assembled:
  "map hop_ServerID (ci_Hops (assembled middle ex uuid imsi token now)) = map cn_ServerID (middle @ [ex])"
  "map hop_Jurisdiction (ci_Hops (assembled middle ex uuid imsi token now)) =
     map primaryJurisdiction (middle @ [ex])"
  unfolding assembled_hops using map_nth_snoc [of _ middle ex]
  by (simp_all add: mk_hop_def comp_def del: upt_Suc map_append)

section \<open>Example nodes\<close>

text \<open>Inputs for evaluating the definitions: nodes with full uptime, and a random source of zeros.\<close>

definition ex_node :: "string \<Rightarrow> string \<Rightarrow> int \<Rightarrow> bool \<Rightarrow> cNodeRecord" where
  "ex_node sid j pool exit =
     \<lparr>cn_ServerID = sid, cn_WireGuardKey = ''k'' @ sid, cn_WireGuard = ''203.0.113.7:51820'',
      cn_Jurisdictions = [j], cn_Regions = [], cn_Uptime30d = Fin 1 0, cn_SIMPoolSize = pool,
      cn_ExitNode = exit, cn_MaxCircuits = 100\<rparr>"

definition zero_entropy :: entropy where
  "zero_entropy = (\<lambda>k. Inr (\<lambda>i. 0))"

lemma entropy_ok_zero [simp]: "entropy_ok zero_entropy"
  by (simp add: entropy_ok_def zero_entropy_def)

lemma randomInt_zero [simp]: "0 < n \<Longrightarrow> randomInt n zero_entropy k = Inr 0"
  by (simp add: randomInt_def rand_Read_def zero_entropy_def abs_rem_be_word)
    (simp add: be_word_def)

lemma score_ex_node [simp]:
  "\<bar>pool\<bar> < 2 ^ 50 \<Longrightarrow> score (ex_node sid j pool exit) = Fin (100 + pool) 0"
  by (simp add: score_def ex_node_def f64_of_int_def)

lemma ex_node_simps [simp]:
  "cn_ServerID (ex_node sid j pool exit) = sid"
  "primaryJurisdiction (ex_node sid j pool exit) = j"
  "cn_ExitNode (ex_node sid j pool exit) = exit"
  by (simp_all add: ex_node_def primaryJurisdiction_def)

definition ex_nodes :: "cNodeRecord list" where
  "ex_nodes = [ex_node ''a'' ''SE'' 40 False, ex_node ''b'' ''NL'' 30 False,
     ex_node ''c'' ''SE'' 20 True, ex_node ''d'' ''DE'' 10 False]"

lemma scoreNodes_ex_nodes [simp]: "scoreNodes ex_nodes = ex_nodes"
  by (simp add: scoreNodes_def ex_nodes_def upt_rec numeral_3_eq_3 numeral_2_eq_2)

text \<open>With the random source of zeros the loop always takes the first eligible node.\<close>

lemma middle_loop_zero:
  "int (length sel) < n \<Longrightarrow> scored \<noteq> [] \<Longrightarrow>
   middle_loop n zero_entropy sel lastJ scored k =
     middle_loop n zero_entropy (sel @ [eligible_hops scored lastJ ! 0])
       (primaryJurisdiction (eligible_hops scored lastJ ! 0))
       (filter (\<lambda>m. cn_ServerID m \<noteq> cn_ServerID (eligible_hops scored lastJ ! 0)) scored) (Suc k)"
  "\<not> (int (length sel) < n \<and> scored \<noteq> []) \<Longrightarrow>
   middle_loop n zero_entropy sel lastJ scored k = Inr (sel, k)"
  using middle_loop_unfold [of sel n scored lastJ zero_entropy k 0] eligible_hops_nonempty [of scored lastJ]
  by (simp, subst middle_loop.simps, auto)

lemma build_zero:
  assumes "filter (\<lambda>n. cn_ServerID n \<noteq> own) nodes = nodes" and "3 \<le> length nodes"
    and "3 \<le> jurisdictionCount nodes"
    and "selectMiddleHops nodes 2 zero_entropy 1 = Inr (middle, k)"
    and "exit_candidates nodes middle = ex # exs"
  shows "\<exists>uuid token. build own nodes imsi zero_entropy now = Inr (assembled middle ex uuid imsi token now)"
proof -
  obtain token where "newSessionToken zero_entropy (k + 1) = Inr token"
    by (simp add: newSessionToken_def rand_Read_def zero_entropy_def)
  then have "build own nodes imsi zero_entropy now =
      Inr (assembled middle ex (mustUUID zero_entropy (k + 2)) imsi token now)"
    using assms unfolding build_def assms(1) Let_def
    by (simp add: minNetworkSize_def minJurisdictions_def minHops_def maxHops_def assembled_def)
  then show ?thesis by blast
qed

lemma build_ex_nodes:
  "\<exists>uuid token. build ''own'' ex_nodes imsi zero_entropy now =
     Inr (assembled [ex_nodes ! 0, ex_nodes ! 1] (ex_nodes ! 2) uuid imsi token now)"
proof (rule build_zero)
  show "filter (\<lambda>n. cn_ServerID n \<noteq> ''own'') ex_nodes = ex_nodes" and "3 \<le> length ex_nodes"
    by (simp_all add: ex_nodes_def)
  show "3 \<le> jurisdictionCount ex_nodes"
    by (simp add: jurisdictionCount_def ex_nodes_def)
  show "selectMiddleHops ex_nodes 2 zero_entropy 1 = Inr ([ex_nodes ! 0, ex_nodes ! 1], 3)"
    by (simp add: selectMiddleHops_def) (simp add: ex_nodes_def middle_loop_zero eligible_hops_def)
  show "exit_candidates ex_nodes [ex_nodes ! 0, ex_nodes ! 1] = [ex_nodes ! 2]"
    by (simp add: exit_candidates_def ex_nodes_def)
qed

section \<open>Properties\<close>

text \<open>C1. Every circuit that \<^verbatim>\<open>build\<close> returns has three to five hops with pairwise different
  servers, none of them the entry server itself; the hops are numbered from 0 in order, only
  the last one is an exit, and the circuit belongs to the device it was asked for, carries a
  24-character token and is due for rotation 600 seconds after its creation.\<close>

theorem build_wellformed:
  assumes "build own nodes imsi ent now = Inr c"
  shows "3 \<le> length (ci_Hops c) \<and> length (ci_Hops c) \<le> 5
    \<and> distinct (map hop_ServerID (ci_Hops c)) \<and> own \<notin> set (map hop_ServerID (ci_Hops c))
    \<and> map hop_HopIndex (ci_Hops c) = map int [0..<length (ci_Hops c)]
    \<and> map hop_IsExit (ci_Hops c) = replicate (length (ci_Hops c) - 1) False @ [True]
    \<and> ci_DeviceIMSI c = imsi \<and> length (ci_SessionToken c) = 24
    \<and> ci_CreatedAt c = now \<and> ci_RotateAt c = now + 600 * second"
proof -
  obtain middle ex uuid token where c: "c = assembled middle ex uuid imsi token now"
    and len: "2 \<le> length middle" "length middle \<le> 4" and tok: "length token = 24"
    and ids: "own \<notin> cn_ServerID ` set (middle @ [ex])" "distinct (map cn_ServerID (middle @ [ex]))"
    using build_shape [OF assms] by metis
  have "map hop_HopIndex (ci_Hops c) = map int [0..<length (ci_Hops c)]"
    unfolding c assembled_hops by (simp add: mk_hop_def comp_def del: upt_Suc)
  moreover have "map hop_IsExit (ci_Hops c) = replicate (length (ci_Hops c) - 1) False @ [True]"
    unfolding c assembled_hops by (rule nth_equalityI) (auto simp: mk_hop_def nth_append simp del: upt_Suc)
  moreover have "distinct (map hop_ServerID (ci_Hops c)) \<and> own \<notin> set (map hop_ServerID (ci_Hops c))"
    unfolding c map_hop_assembled using ids by simp
  ultimately show ?thesis
    using len tok by (simp add: c chainRotationInterval_def)
qed

theorem build_wellformed_witness:
  "\<exists>c. build ''own'' ex_nodes ''imsi'' zero_entropy 7 = Inr c \<and> 3 \<le> length (ci_Hops c)
    \<and> length (ci_Hops c) \<le> 5 \<and> distinct (map hop_ServerID (ci_Hops c))
    \<and> ''own'' \<notin> set (map hop_ServerID (ci_Hops c)) \<and> ci_RotateAt c = 7 + 600 * second"
proof -
  obtain c where c: "build ''own'' ex_nodes ''imsi'' zero_entropy 7 = Inr c"
    using build_ex_nodes by blast
  then show ?thesis using build_wellformed [OF c] by blast
qed

text \<open>C11. Every hop of a built circuit describes one of the nodes it was built from (address,
  WireGuard key and primary jurisdiction).  The node behind the last hop offers the exit
  capability, and its jurisdiction differs from that of the hop before it.\<close>

theorem build_exit_hop:
  assumes "build own nodes imsi ent now = Inr c"
  shows "(\<forall>h \<in> set (ci_Hops c). \<exists>n \<in> set nodes. h = mk_hop (nat (hop_HopIndex h)) (hop_IsExit h) n)
    \<and> (\<exists>n \<in> set nodes. cn_ExitNode n \<and> last (ci_Hops c) = mk_hop (length (ci_Hops c) - 1) True n)
    \<and> hop_Jurisdiction (last (ci_Hops c)) \<noteq> hop_Jurisdiction (last (butlast (ci_Hops c)))"
proof -
  obtain middle ex uuid token where c: "c = assembled middle ex uuid imsi token now"
    and len: "2 \<le> length middle" and sub: "set (middle @ [ex]) \<subseteq> set nodes"
    and ex: "cn_ExitNode ex" "primaryJurisdiction ex \<noteq> primaryJurisdiction (last middle)"
    using build_shape [OF assms] by metis
  have "(middle @ [ex]) ! i \<in> set nodes" if "i < Suc (length middle)" for i
    using that sub nth_mem [of i "middle @ [ex]"] by (auto simp del: nth_append)
  then have "\<forall>h \<in> set (ci_Hops c). \<exists>n \<in> set nodes. h = mk_hop (nat (hop_HopIndex h)) (hop_IsExit h) n"
    unfolding c assembled_hops by (auto simp: mk_hop_def simp del: upt_Suc)
  moreover have "last (ci_Hops c) = mk_hop (length (ci_Hops c) - 1) True ex"
    unfolding c by (simp add: assembled_def)
  moreover have "hop_Jurisdiction (last (butlast (ci_Hops c))) = primaryJurisdiction (last middle)"
  proof -
    have m: "map hop_Jurisdiction (butlast (ci_Hops c)) = map primaryJurisdiction middle"
      unfolding c map_butlast map_hop_assembled by simp
    have "butlast (ci_Hops c) \<noteq> []" "middle \<noteq> []" using m len by auto
    then show ?thesis by (metis m last_map)
  qed
  ultimately show ?thesis
    using ex sub by (auto simp: mk_hop_def)
qed

theorem build_exit_hop_witness:
  "\<exists>c. build ''own'' ex_nodes ''imsi'' zero_entropy 7 = Inr c
    \<and> (\<exists>n \<in> set ex_nodes. cn_ExitNode n \<and> last (ci_Hops c) = mk_hop (length (ci_Hops c) - 1) True n)"
proof -
  obtain c where c: "build ''own'' ex_nodes ''imsi'' zero_entropy 7 = Inr c"
    using build_ex_nodes by blast
  then show ?thesis using build_exit_hop [OF c] by blast
qed

text \<open>C12. \<^verbatim>\<open>scoreNodes\<close>, whose inner loop never stops early, is a stable sort by score, that is by uptime
  times 100 plus pool size, highest first (not lexicographically, as \<open>score_not_lexicographic\<close> below
  shows), for nodes whose uptime is a number: it permutes its argument, no node is preceded by one with a lower score, and nodes
  with equal scores keep their order.  It agrees with insertion into a sorted list.\<close>

theorem scoreNodes_sorts:
  assumes "\<forall>n \<in> set nodes. node_ok n"
  shows "scoreNodes nodes = sort_desc node_gt nodes
    \<and> mset (scoreNodes nodes) = mset nodes
    \<and> sorted_wrt (\<lambda>a b. \<not> f64_gt (score b) (score a)) (scoreNodes nodes)
    \<and> (\<forall>a \<in> set nodes. filter (\<lambda>b. \<not> node_gt a b \<and> \<not> node_gt b a) (scoreNodes nodes) =
         filter (\<lambda>b. \<not> node_gt a b \<and> \<not> node_gt b a) nodes)"
proof -
  have ok: "\<forall>n \<in> set nodes. score n \<noteq> NaN" using assms score_not_NaN by blast
  then have eq: "scoreNodes nodes = sort_desc node_gt nodes" by (rule scoreNodes_sort_desc)
  have sub: "set nodes \<subseteq> {n. score n \<noteq> NaN}" using ok by auto
  have "sorted_wrt (\<lambda>a b. \<not> f64_gt (score b) (score a)) (scoreNodes nodes)"
    using nodes.desc_sort [OF sub] unfolding eq desc_def node_gt_def .
  moreover have "\<forall>a \<in> set nodes. filter (\<lambda>b. \<not> node_gt a b \<and> \<not> node_gt b a) (scoreNodes nodes) =
      filter (\<lambda>b. \<not> node_gt a b \<and> \<not> node_gt b a) nodes"
    using nodes.sort_desc_stable [OF _ sub] sub unfolding eq nodes.same_rank_def [abs_def] by auto
  ultimately show ?thesis using eq by simp
qed

theorem scoreNodes_sorts_witness:
  "list_all node_ok ex_nodes \<and> scoreNodes ex_nodes = sort_desc node_gt ex_nodes"
proof -
  have ok: "\<forall>n \<in> set ex_nodes. node_ok n"
    by (simp add: ex_nodes_def node_ok_def ex_node_def in_int64_def)
  then show ?thesis using scoreNodes_sorts [OF ok] by (simp add: list_all_iff)
qed

text \<open>The comment on \<^verbatim>\<open>scoreNodes\<close> says that nodes are sorted by uptime, then by pool size.  The order by
  score is another one: a node with half the uptime and 60 SIMs comes before one with full uptime
  and no SIM.\<close>

theorem score_not_lexicographic:
  "scoreNodes [ex_node ''a'' ''SE'' 0 True, (ex_node ''b'' ''SE'' 60 True)\<lparr>cn_Uptime30d := Fin 1 (- 1)\<rparr>] =
     [(ex_node ''b'' ''SE'' 60 True)\<lparr>cn_Uptime30d := Fin 1 (- 1)\<rparr>, ex_node ''a'' ''SE'' 0 True]"
proof -
  have "round64 100 (- 1) = Fin 100 (- 1)" "round64 220 (- 1) = Fin 220 (- 1)"
    using nbits_le [of 100 53] nbits_le [of 220 53] by (simp_all add: round64_small)
  then show ?thesis by (simp add: scoreNodes_def score_def ex_node_def f64_of_int_def)
qed

text \<open>C16. Selecting \<open>n\<close> middle hops succeeds exactly when the candidates have at least \<open>n\<close>
  different server identifiers, whatever the random draws are; the loop always terminates.\<close>

theorem selectMiddleHops_succeeds_iff:
  assumes "entropy_ok ent" and "0 \<le> n"
  shows "(\<exists>middle k'. selectMiddleHops candidates n ent k = Inr (middle, k')) \<longleftrightarrow>
    n \<le> int (card (cn_ServerID ` set candidates))"
  using assms by (rule selectMiddleHops_iff)

theorem selectMiddleHops_succeeds_iff_witness:
  "\<exists>middle k'. selectMiddleHops ex_nodes 4 zero_entropy 1 = Inr (middle, k')"
  using selectMiddleHops_succeeds_iff [OF entropy_ok_zero, of 4 ex_nodes 1]
  by (simp add: ex_nodes_def)

text \<open>C17. Jurisdictional diversity of the middle hops: two consecutive hops share a
  jurisdiction only when, at that point of the selection, the three best remaining
  candidates were all in it.\<close>

theorem selectMiddleHops_diverse:
  assumes "selectMiddleHops candidates n ent k = Inr (middle, k')" and "Suc i < length middle"
    and "primaryJurisdiction (middle ! Suc i) = primaryJurisdiction (middle ! i)"
  shows "relaxed_at (scoreNodes candidates) middle i"
proof -
  have "middle_loop n ent [] [] (scoreNodes candidates) k = Inr (middle, k')"
    using assms(1) by (auto simp: selectMiddleHops_def split: sum.splits if_splits prod.splits)
  then show ?thesis using assms(2,3) by (rule middle_loop_diverse)
qed

text \<open>Three nodes in Sweden ahead of the others: the second hop is Swedish again.\<close>

definition ex_cluster :: "cNodeRecord list" where
  "ex_cluster = [ex_node ''a'' ''SE'' 60 False, ex_node ''b'' ''SE'' 50 False,
     ex_node ''c'' ''SE'' 40 False, ex_node ''d'' ''SE'' 30 False,
     ex_node ''e'' ''NL'' 20 True, ex_node ''f'' ''DE'' 10 False]"

lemma scoreNodes_ex_cluster [simp]: "scoreNodes ex_cluster = ex_cluster"
  by (simp add: scoreNodes_def ex_cluster_def upt_rec eval_nat_numeral)

lemma select_ex_cluster:
  "selectMiddleHops ex_cluster 2 zero_entropy 1 = Inr ([ex_cluster ! 0, ex_cluster ! 1], 3)"
  by (simp add: selectMiddleHops_def) (simp add: ex_cluster_def middle_loop_zero eligible_hops_def)

theorem selectMiddleHops_diverse_witness:
  "selectMiddleHops ex_cluster 2 zero_entropy 1 = Inr ([ex_cluster ! 0, ex_cluster ! 1], 3)
    \<and> relaxed_at (scoreNodes ex_cluster) [ex_cluster ! 0, ex_cluster ! 1] 0"
  using selectMiddleHops_diverse [OF select_ex_cluster, of 0] select_ex_cluster
  by (simp add: ex_cluster_def)

text \<open>A built circuit can have two consecutive hops in the same jurisdiction, although the
  comment on the selection (and principle P6 of the specification) excludes it.\<close>

theorem build_consecutive_same_jurisdiction:
  "\<exists>c. build ''own'' ex_cluster ''imsi'' zero_entropy 0 = Inr c
    \<and> map hop_Jurisdiction (ci_Hops c) = [''SE'', ''SE'', ''NL'']"
proof -
  have "\<exists>uuid token. build ''own'' ex_cluster ''imsi'' zero_entropy 0 =
      Inr (assembled [ex_cluster ! 0, ex_cluster ! 1] (ex_cluster ! 4) uuid ''imsi'' token 0)"
    by (rule build_zero [OF _ _ _ select_ex_cluster])
      (simp_all add: ex_cluster_def jurisdictionCount_def exit_candidates_def)
  then show ?thesis
    by (auto simp: map_hop_assembled ex_cluster_def)
qed

text \<open>The check for three jurisdictions looks at all candidates, not at the chosen hops: a
  built circuit can stay within two jurisdictions.\<close>

theorem build_two_jurisdictions:
  "\<exists>c. build ''own'' ex_nodes ''imsi'' zero_entropy 0 = Inr c
    \<and> card (set (map hop_Jurisdiction (ci_Hops c))) = 2"
proof -
  obtain uuid token where "build ''own'' ex_nodes ''imsi'' zero_entropy 0 =
      Inr (assembled [ex_nodes ! 0, ex_nodes ! 1] (ex_nodes ! 2) uuid ''imsi'' token 0)"
    using build_ex_nodes by blast
  then show ?thesis
    by (auto simp: map_hop_assembled ex_nodes_def insert_commute simp del: set_map)
qed

text \<open>A circuit of \<open>3 + extra\<close> hops needs as many different servers besides the entry server.
  In particular, with the three candidates that the minimum-size check accepts, every draw
  of more than the least number of hops makes \<^verbatim>\<open>build\<close> fail.\<close>

theorem build_needs_servers:
  assumes "randomInt (maxHops - minHops + 1) ent 0 = Inr extra"
    and "int (card (cn_ServerID ` set nodes - {own})) < 3 + extra"
  shows "\<exists>e. build own nodes imsi ent now = Inl e"
proof (rule ccontr)
  assume "\<nexists>e. build own nodes imsi ent now = Inl e"
  then obtain c where c: "build own nodes imsi ent now = Inr c"
    by (cases "build own nodes imsi ent now") auto
  have draw: "randomInt 3 ent 0 = Inr extra" using assms(1) by (simp add: minHops_def maxHops_def)
  obtain middle ex where sub: "set (middle @ [ex]) \<subseteq> set nodes" "own \<notin> cn_ServerID ` set (middle @ [ex])"
    and dist: "distinct (map cn_ServerID (middle @ [ex]))" and len: "int (length middle) = 2 + extra"
    using build_shape [OF c] draw by metis
  have "card (set (map cn_ServerID (middle @ [ex]))) = Suc (length middle)"
    using distinct_card [OF dist] by simp
  moreover have "card (set (map cn_ServerID (middle @ [ex]))) \<le> card (cn_ServerID ` set nodes - {own})"
    using sub by (intro card_mono) auto
  ultimately show False using assms(2) len by simp
qed

definition one_entropy :: entropy where
  "one_entropy = (\<lambda>k. Inr (\<lambda>i. if i = 3 then 1 else 0))"

lemma randomInt_one: "1 < n \<Longrightarrow> randomInt n one_entropy k = Inr 1"
  by (simp add: randomInt_def rand_Read_def one_entropy_def abs_rem_be_word)
    (simp add: be_word_def upt_rec)

theorem build_needs_servers_witness:
  "\<exists>e. build ''own'' (take 3 ex_nodes) ''imsi'' one_entropy 0 = Inl e"
proof (rule build_needs_servers)
  show "randomInt (maxHops - minHops + 1) one_entropy 0 = Inr 1"
    by (rule randomInt_one) (simp add: maxHops_def minHops_def)
  show "int (card (cn_ServerID ` set (take 3 ex_nodes) - {''own''})) < 3 + 1"
    by (simp add: ex_nodes_def)
qed

section \<open>Availability\<close>

lemma set_jurisdictions:
  "fst ` set (fold (\<lambda>n seen. mput (primaryJurisdiction n) True seen) nodes m) =
     fst ` set m \<union> primaryJurisdiction ` set nodes"
  by (induction nodes arbitrary: m) (auto simp: dom_update)

lemma mwf_jurisdictions:
  "mwf m \<Longrightarrow> mwf (fold (\<lambda>n seen. mput (primaryJurisdiction n) True seen) nodes m)"
  by (induction nodes arbitrary: m) auto

lemma jurisdictionCount_card:
  "jurisdictionCount nodes = int (card (primaryJurisdiction ` set nodes))"
proof -
  let ?m = "fold (\<lambda>n seen. mput (primaryJurisdiction n) True seen) nodes []"
  have "length ?m = card (set (mkeys ?m))"
    using mwf_jurisdictions [of "[]" nodes] by (metis mwf_Nil mwf_def distinct_card length_map)
  then show ?thesis
    by (simp add: jurisdictionCount_def set_jurisdictions)
qed

text \<open>The exit-capable servers besides \<open>own\<close> outside a jurisdiction.\<close>

definition exits_outside :: "string \<Rightarrow> cNodeRecord list \<Rightarrow> string \<Rightarrow> string set" where
  "exits_outside own nodes j =
     cn_ServerID ` {n \<in> set nodes. cn_ExitNode n \<and> primaryJurisdiction n \<noteq> j} - {own}"

lemma exit_candidates_nonempty:
  assumes "middle \<noteq> []" and "length middle \<le> 4" and "distinct (map cn_ServerID middle)"
    and "4 < card (exits_outside own nodes (primaryJurisdiction (last middle)))"
  shows "exit_candidates (filter (\<lambda>n. cn_ServerID n \<noteq> own) nodes) middle \<noteq> []"
proof -
  let ?S = "exits_outside own nodes (primaryJurisdiction (last middle))"
  have "card (cn_ServerID ` set middle) \<le> 4"
    using assms(2) card_length [of "map cn_ServerID middle"] by simp
  then have "\<not> ?S \<subseteq> cn_ServerID ` set middle"
    using assms(4) card_mono [of "cn_ServerID ` set middle" ?S] by fastforce
  then obtain n where "n \<in> set nodes" "cn_ExitNode n" "cn_ServerID n \<noteq> own"
    "primaryJurisdiction n \<noteq> primaryJurisdiction (last middle)" "cn_ServerID n \<notin> cn_ServerID ` set middle"
    by (auto simp: exits_outside_def)
  then show ?thesis
    using assms(1) by (auto simp: exit_candidates_def Let_def filter_empty_conv)
qed

text \<open>C18. When the nodes besides the entry server cover three jurisdictions and, outside every
  single jurisdiction, at least five exit-capable servers remain, \<^verbatim>\<open>build\<close> returns a circuit
  for all random draws.\<close>

theorem build_available:
  assumes "entropy_ok ent"
    and "3 \<le> card (primaryJurisdiction ` {n \<in> set nodes. cn_ServerID n \<noteq> own})"
    and "\<And>j. 4 < card (exits_outside own nodes j)"
  shows "\<exists>c. build own nodes imsi ent now = Inr c"
proof -
  let ?cands = "filter (\<lambda>n. cn_ServerID n \<noteq> own) nodes"
  have sub: "exits_outside own nodes [] \<subseteq> cn_ServerID ` set ?cands"
    by (auto simp: exits_outside_def)
  have ids: "4 < card (cn_ServerID ` set ?cands)"
    by (rule less_le_trans [OF assms(3) card_mono [OF _ sub]]) simp
  then have size: "3 \<le> length ?cands"
    using card_length [of "map cn_ServerID ?cands"] by simp
  obtain extra where extra: "randomInt 3 ent 0 = Inr extra"
    using rand_Read_ok [OF assms(1), of 0 4] by (auto simp: randomInt_def)
  have range: "0 \<le> 2 + extra" "2 + extra \<le> 4" using randomInt_Inr [OF extra] by auto
  then obtain middle k where sel: "selectMiddleHops ?cands (2 + extra) ent 1 = Inr (middle, k)"
    using selectMiddleHops_iff [OF assms(1) range(1), of ?cands 1] ids by auto
  have mid: "int (length middle) = 2 + extra" "distinct (map cn_ServerID middle)"
    using selectMiddleHops_sound [OF sel range(1)] by auto
  then have "middle \<noteq> []" "length middle \<le> 4" using randomInt_Inr [OF extra] by auto
  then have exits: "exit_candidates ?cands middle \<noteq> []"
    using exit_candidates_nonempty mid(2) assms(3) by blast
  obtain ei where ei: "randomInt (int (length (exit_candidates ?cands middle))) ent k = Inr ei"
    using rand_Read_ok [OF assms(1), of k 4] exits by (auto simp: randomInt_def)
  obtain token where "newSessionToken ent (k + 1) = Inr token"
    using rand_Read_ok [OF assms(1), of "k + 1" 16] by (auto simp: newSessionToken_def sessionTokenLen_def)
  moreover have "3 \<le> jurisdictionCount ?cands"
    using assms(2) by (simp add: jurisdictionCount_card)
  moreover have hops: "minHops + x - 1 = 2 + x" "maxHops - minHops + 1 = 3" for x
    by (simp_all add: minHops_def maxHops_def)
  ultimately show ?thesis
    using size extra sel exits ei
    unfolding build_def Let_def minNetworkSize_def minJurisdictions_def hops by simp
qed

text \<open>Exit servers spread over seven jurisdictions.\<close>

definition ex_exits :: "cNodeRecord list" where
  "ex_exits = map (\<lambda>(s, j). ex_node s j 5 True)
     [(''a'', ''SE''), (''b'', ''NL''), (''c'', ''DE''), (''d'', ''FI''), (''e'', ''CH''), (''f'', ''IS'')]"

lemma exits_outside_ex_exits: "4 < card (exits_outside ''own'' ex_exits j)"
proof -
  have "exits_outside ''own'' ex_exits j =
      set (map fst (filter (\<lambda>(s, i). i \<noteq> j)
        [(''a'', ''SE''), (''b'', ''NL''), (''c'', ''DE''), (''d'', ''FI''), (''e'', ''CH''), (''f'', ''IS'')]))"
    unfolding exits_outside_def ex_exits_def set_filter [symmetric] set_map [symmetric]
    by (simp add: filter_map comp_def)
  moreover consider "j = ''SE''" | "j = ''NL''" | "j = ''DE''" | "j = ''FI''" | "j = ''CH''" | "j = ''IS''"
    | "j \<notin> {''SE'', ''NL'', ''DE'', ''FI'', ''CH'', ''IS''}" by blast
  then have "4 < card (set (map fst (filter (\<lambda>(s, i). i \<noteq> j)
        [(''a'', ''SE''), (''b'', ''NL''), (''c'', ''DE''), (''d'', ''FI''), (''e'', ''CH''), (''f'', ''IS'')])))"
    by cases (simp_all add: eq_commute [of _ j])
  ultimately show ?thesis by simp
qed

theorem build_available_witness:
  "\<exists>c. build ''own'' ex_exits ''imsi'' zero_entropy 0 = Inr c"
proof (rule build_available [OF entropy_ok_zero _ exits_outside_ex_exits])
  have "primaryJurisdiction ` {n \<in> set ex_exits. cn_ServerID n \<noteq> ''own''} =
      {''SE'', ''NL'', ''DE'', ''FI'', ''CH'', ''IS''}"
    unfolding set_filter [symmetric] by (simp add: ex_exits_def)
  then show "3 \<le> card (primaryJurisdiction ` {n \<in> set ex_exits. cn_ServerID n \<noteq> ''own''})"
    by simp
qed

section \<open>Identifiers\<close>

lemma length_hex_bytes [simp]: "length (hex_bytes bs) = 2 * length bs"
  by (induction bs) auto

lemma hex_digit_nibble: "hex_digit (unat (b :: byte) div 16) = hex_digit (unat (drop_bit 4 b))"
  by (simp only: unsigned_drop_bit_eq) (simp add: drop_bit_eq_div take_bit_eq_mod unat_byte)

lemma uuid_version: "hex_digit (unat (((b :: byte) AND 0x0f) OR 0x40) div 16) = CHR ''4''"
proof -
  have "drop_bit 4 ((b AND 0x0f) OR 0x40) = (4 :: byte)"
    by (simp add: drop_bit_and drop_bit_or)
  then show ?thesis by (simp add: hex_digit_nibble) (simp add: hex_digit_def)
qed

lemma uuid_variant: "hex_digit (unat (((b :: byte) AND 0x3f) OR 0x80) div 16) \<in> set ''89ab''"
proof -
  have m: "drop_bit 4 ((b AND 0x3f) OR 0x80) = take_bit 2 (drop_bit 4 b) OR (8 :: byte)"
    by (simp add: drop_bit_and drop_bit_or take_bit_eq_mask mask_eq_exp_minus_1 and.commute)
  have "unat (take_bit 2 (drop_bit 4 b)) < 4"
    unfolding unsigned_take_bit_eq using take_bit_nat_less_exp [of 2] by simp
  then have "unat (take_bit 2 (drop_bit 4 b)) \<in> {0, 1, 2, 3}" by auto
  moreover obtain v where v: "v = unat (take_bit 2 (drop_bit 4 b))" by simp
  ultimately have "v \<in> {0, 1, 2, 3}" and x: "take_bit 2 (drop_bit 4 b) = (of_nat v :: byte)"
    by simp_all
  then show ?thesis unfolding hex_digit_nibble m x by (auto simp: hex_digit_def)
qed

lemma hex_bytes_hd: "bs \<noteq> [] \<Longrightarrow> hex_bytes bs ! 0 = hex_digit (unat (hd bs) div 16)"
  by (cases bs) auto

lemma hex_digit_mem: "hex_digit v \<in> set ''0123456789abcdef''"
proof -
  have "v mod 16 < length ''0123456789abcdef''" by simp
  then show ?thesis unfolding hex_digit_def by (rule nth_mem)
qed

lemma set_hex_bytes: "set (hex_bytes bs) \<subseteq> set ''0123456789abcdef''"
proof (induction bs)
  case (Cons b bs)
  then show ?case using hex_digit_mem by (metis hex_bytes.simps(2) insert_subset list.simps(15))
qed simp

lemma hex_bytes_append: "hex_bytes (as @ bs) = hex_bytes as @ hex_bytes bs"
  by (induction as) simp_all

lemma filter_hex_bytes: "filter (\<lambda>c. c \<noteq> CHR ''-'') (hex_bytes bs) = hex_bytes bs"
  using set_hex_bytes [of bs] by (auto simp: filter_id_conv)

text \<open>The bytes that an identifier shows: those drawn, with the version and the variant in place.\<close>

definition uuid_bytes :: "bytes \<Rightarrow> bytes" where
  "uuid_bytes b = b[6 := (b ! 6 AND 0x0f) OR 0x40, 8 := (b ! 8 AND 0x3f) OR 0x80]"

lemma uuid_of_format:
  assumes "length b = 16"
  shows "length (uuid_of b) = 36" and "\<forall>i \<in> {8, 13, 18, 23}. uuid_of b ! i = CHR ''-''"
    and "uuid_of b ! 14 = CHR ''4''" and "uuid_of b ! 19 \<in> set ''89ab''"
    and "filter (\<lambda>c. c \<noteq> CHR ''-'') (uuid_of b) = hex_bytes (uuid_bytes b)"
    and "set (uuid_of b) \<subseteq> set ''-0123456789abcdef''"
proof -
  let ?u = "uuid_bytes b"
  define A B C D E where "A = hex_bytes (take 4 ?u)" and "B = hex_bytes (take 2 (drop 4 ?u))"
    and "C = hex_bytes (take 2 (drop 6 ?u))" and "D = hex_bytes (take 2 (drop 8 ?u))"
    and "E = hex_bytes (take 6 (drop 10 ?u))"
  have u: "length ?u = 16" using assms by (simp add: uuid_bytes_def)
  then have len: "length A = 8" "length B = 4" "length C = 4" "length D = 4" "length E = 12"
    by (simp_all add: A_def B_def C_def D_def E_def)
  have uuid: "uuid_of b = A @ ''-'' @ B @ ''-'' @ C @ ''-'' @ D @ ''-'' @ E"
    by (simp add: uuid_of_def Let_def uuid_bytes_def A_def B_def C_def D_def E_def)
  have "C ! 0 = CHR ''4''"
    using uuid_version u assms by (simp add: C_def hex_bytes_hd hd_drop_conv_nth uuid_bytes_def)
  moreover have "D ! 0 \<in> set ''89ab''"
    using uuid_variant u assms by (simp add: D_def hex_bytes_hd hd_drop_conv_nth uuid_bytes_def)
  ultimately show "length (uuid_of b) = 36" "\<forall>i \<in> {8, 13, 18, 23}. uuid_of b ! i = CHR ''-''"
    "uuid_of b ! 14 = CHR ''4''" "uuid_of b ! 19 \<in> set ''89ab''"
    using len unfolding uuid by (simp_all add: nth_append)
  have "?u = take 4 ?u @ take 2 (drop 4 ?u) @ take 2 (drop 6 ?u) @ take 2 (drop 8 ?u) @ take 6 (drop 10 ?u)"
    using u by (simp add: take_add [symmetric] append_take_drop_id flip: append_assoc take_add drop_drop)
  then have "hex_bytes ?u = A @ B @ C @ D @ E"
    unfolding A_def B_def C_def D_def E_def by (metis hex_bytes_append)
  then show "filter (\<lambda>c. c \<noteq> CHR ''-'') (uuid_of b) = hex_bytes ?u"
    unfolding uuid by (simp add: A_def B_def C_def D_def E_def filter_hex_bytes)
  show "set (uuid_of b) \<subseteq> set ''-0123456789abcdef''"
    using set_hex_bytes unfolding uuid A_def B_def C_def D_def E_def by fastforce
qed

lemma nondash_positions:
  assumes "length s = 36" and "length (filter (\<lambda>c. c \<noteq> d) s) = 32"
    and "\<forall>i \<in> {8, 13, 18, 23}. s ! i = d" and "i < 36" and "i \<notin> {8, 13, 18, 23 :: nat}"
  shows "s ! i \<noteq> d"
proof
  assume "s ! i = d"
  then have "insert i {8, 13, 18, 23} \<subseteq> {j. j < length s \<and> s ! j = d}" using assms by auto
  then have "card (insert i {8, 13, 18, 23}) \<le> card {j. j < length s \<and> s ! j = d}"
    by (rule card_mono [rotated]) simp
  moreover have "card (insert i {8, 13, 18, 23}) = 5" using assms(5) by simp
  moreover have "length (filter (\<lambda>c. c = d) s) = card {j. j < length s \<and> s ! j = d}" by (rule length_filter_conv_card)
  ultimately show False using sum_length_filter_compl [of "\<lambda>c. c = d" s] assms(1,2) by simp
qed

text \<open>C40. \<^verbatim>\<open>mustUUID\<close> returns a version 4 identifier in its canonical form: 36 characters with
  dashes at positions 8, 13, 18 and 23 and lower-case hexadecimal digits everywhere else, version
  digit 4 and variant digit 8, 9, a or b, for every outcome of the random source, failures included.
  Without the dashes it is the hexadecimal form of the 16 bytes drawn, in order and with only the
  version and variant bits replaced.\<close>

theorem mustUUID_format:
  "length (mustUUID ent k) = 36 \<and> (\<forall>i \<in> {8, 13, 18, 23}. mustUUID ent k ! i = CHR ''-'')
    \<and> (\<forall>i < 36. i \<notin> {8, 13, 18, 23} \<longrightarrow> mustUUID ent k ! i \<in> set ''0123456789abcdef'')
    \<and> mustUUID ent k ! 14 = CHR ''4'' \<and> mustUUID ent k ! 19 \<in> set ''89ab''
    \<and> (\<forall>b. rand_Read ent k 16 = Inr b \<longrightarrow> filter (\<lambda>c. c \<noteq> CHR ''-'') (mustUUID ent k) =
         hex_bytes (b[6 := (b ! 6 AND 0x0f) OR 0x40, 8 := (b ! 8 AND 0x3f) OR 0x80]))"
proof -
  define b0 where "b0 = (case rand_Read ent k 16 of Inl e \<Rightarrow> replicate 16 0 | Inr b \<Rightarrow> b)"
  have uuid: "mustUUID ent k = uuid_of b0"
    by (simp add: mustUUID_def b0_def)
  have "length b0 = 16"
    by (auto simp: b0_def split: sum.splits dest: rand_Read_length)
  note f = uuid_of_format [OF this]
  have n: "length (filter (\<lambda>c. c \<noteq> CHR ''-'') (uuid_of b0)) = 32"
    using \<open>length b0 = 16\<close> unfolding f(5) by (simp add: uuid_bytes_def)
  have hex: "uuid_of b0 ! i \<in> set ''0123456789abcdef''" if "i < 36" "i \<notin> {8, 13, 18, 23}" for i
  proof -
    have "uuid_of b0 ! i \<in> set (uuid_of b0)" using f(1) that(1) by simp
    then have "uuid_of b0 ! i \<in> set ''-0123456789abcdef''" using f(6) by blast
    moreover have "uuid_of b0 ! i \<noteq> CHR ''-''" by (rule nondash_positions [OF f(1) n f(2) that])
    ultimately show ?thesis by simp
  qed
  have "filter (\<lambda>c. c \<noteq> CHR ''-'') (uuid_of b0) = hex_bytes (b[6 := (b ! 6 AND 0x0f) OR 0x40, 8 := (b ! 8 AND 0x3f) OR 0x80])"
    if "rand_Read ent k 16 = Inr b" for b
    using f(5) that by (simp add: b0_def uuid_bytes_def)
  then show ?thesis unfolding uuid using f(1-4) hex by blast
qed

theorem mustUUID_format_witness:
  "mustUUID zero_entropy 0 ! 8 = CHR ''-'' \<and> mustUUID zero_entropy 0 ! 14 = CHR ''4''
    \<and> filter (\<lambda>c. c \<noteq> CHR ''-'') (mustUUID zero_entropy 0) = ''00000000000040008000000000000000''"
proof -
  have "rand_Read zero_entropy 0 16 = Inr (replicate 16 0)"
    by (simp add: rand_Read_def zero_entropy_def map_replicate_const)
  moreover have "hex_bytes ((replicate 16 0)[6 := ((replicate 16 0) ! 6 AND 0x0f) OR 0x40,
      8 := ((replicate 16 0) ! 8 AND 0x3f) OR 0x80]) = ''00000000000040008000000000000000''"
    by code_simp
  ultimately show ?thesis
    using mustUUID_format [of zero_entropy 0] by simp
qed

text \<open>C39. \<^verbatim>\<open>randomInt\<close> returns a value in the range from 0 to below its argument, or an error; it
  fails exactly when the argument is not positive or the random source fails.\<close>

theorem randomInt_range:
  "(case randomInt n ent k of
      Inr v \<Rightarrow> 0 \<le> v \<and> v < n
    | Inl e \<Rightarrow> n \<le> 0 \<or> rand_Read ent k 4 = Inl e)"
  using randomInt_Inr [of n ent k]
  by (auto simp: randomInt_def split: sum.splits)

text \<open>Where \<^verbatim>\<open>int\<close> has 32 bits, the range can be left: for the bytes 128, 0, 0, 0 the negated
  value is still negative, and so is the result, which the callers use as an index.\<close>

theorem randomInt_negative_32:
  "abs_rem (be_word [128, 0, 0, 0] :: 32 word) 3 < 0"
  by (simp add: be_word_def abs_rem_def)

end
