(* ===== verification/GoConn.thy ===== *)
theory GoConn
  imports Prelude
begin

text \<open>
  What the five programs share around their handlers: splitting a connection into lines with
  \<^verbatim>\<open>bufio.Scanner\<close>, accepting connections, and how \<^verbatim>\<open>main\<close> ends or goes on.
\<close>

section \<open>Lines of a connection\<close>

text \<open>
  The default \<^verbatim>\<open>bufio.Scanner\<close>: lines end with a newline or with the input, one carriage return
  before the end is dropped, and a line that does not fit with its newline into a buffer of
  65536 bytes stops the scanner for good.
\<close>

definition maxTokenSize :: nat where "maxTokenSize = 65536"

definition dropCR :: "bytes \<Rightarrow> bytes" where
  "dropCR line = (if line \<noteq> [] \<and> last line = 13 then butlast line else line)"

function scan_lines :: "bytes \<Rightarrow> bytes list" where
  "scan_lines data =
     (if data = [] then []
      else
        (let line = takeWhile (\<lambda>b. b \<noteq> 10) data; rest = dropWhile (\<lambda>b. b \<noteq> 10) data
         in if length line \<ge> maxTokenSize then []
            else dropCR line # scan_lines (tl rest)))"
  by pat_completeness auto
termination
proof (relation "measure length")
  fix data :: bytes and line rest
  assume d: "data \<noteq> []" and r: "rest = dropWhile (\<lambda>b. b \<noteq> 10) data"
  have "length rest \<le> length data" unfolding r by (rule length_dropWhile_le)
  moreover have "length (tl rest) < length data" if "rest = []" using d that by simp
  ultimately show "(tl rest, data) \<in> measure length" using d by (cases rest) auto
qed simp

declare scan_lines.simps [simp del]

lemma scan_lines_Nil [simp]: "scan_lines [] = []"
  by (subst scan_lines.simps) simp

text \<open>A line that can be sent as it is.\<close>

definition line_ok :: "bytes \<Rightarrow> bool" where
  "line_ok l \<longleftrightarrow> 10 \<notin> set l \<and> (l = [] \<or> last l \<noteq> 13) \<and> length l < maxTokenSize"

lemma dropCR_line: "line_ok l \<Longrightarrow> dropCR l = l"
  by (auto simp: line_ok_def dropCR_def)

lemma takeWhile_line: "10 \<notin> set l \<Longrightarrow> takeWhile (\<lambda>b. b \<noteq> 10) (l @ 10 # r) = l"
  by (subst takeWhile_append2) auto

lemma dropWhile_line: "10 \<notin> set l \<Longrightarrow> dropWhile (\<lambda>b. b \<noteq> 10) (l @ 10 # r) = 10 # r"
  by (subst dropWhile_append2) auto

lemma scan_lines_line: "line_ok l \<Longrightarrow> scan_lines (l @ 10 # r) = l # scan_lines r"
  by (subst scan_lines.simps) (simp add: takeWhile_line dropWhile_line line_ok_def dropCR_line Let_def)

text \<open>What was framed line by line is read back line by line.\<close>

lemma scan_lines_frames:
  assumes "list_all line_ok ls"
  shows "scan_lines (concat (map (\<lambda>l. l @ [10]) ls) @ r) = ls @ scan_lines r"
  using assms by (induction ls) (simp_all add: scan_lines_line)

lemma scan_lines_last:
  assumes "line_ok l" and "l \<noteq> []"
  shows "scan_lines l = [l]"
proof -
  have "\<forall>b \<in> set l. b \<noteq> 10" using assms(1) by (auto simp: line_ok_def)
  then have w: "takeWhile (\<lambda>b. b \<noteq> 10) l = l" "dropWhile (\<lambda>b. b \<noteq> 10) l = []"
    by (simp_all add: takeWhile_eq_all_conv dropWhile_eq_Nil_conv)
  show ?thesis
    unfolding scan_lines.simps [of l] Let_def w using assms by (simp add: line_ok_def dropCR_line [OF assms(1)])
qed

text \<open>A line that is too long ends the connection: it and everything after it is lost.\<close>

lemma scan_lines_too_long:
  assumes "10 \<notin> set l" and "maxTokenSize \<le> length l"
  shows "scan_lines (l @ 10 # r) = []"
  using assms by (subst scan_lines.simps) (auto simp: takeWhile_line Let_def maxTokenSize_def)

section \<open>Serving a socket\<close>

text \<open>
  A connection of a client: the lines the handler has read and those it has still to read, and
  the answers it has written.
\<close>

record 'r conn =
  co_read :: "bytes list"
  co_unread :: "bytes list"
  co_answers :: "'r list"

text \<open>A program with a socket: its state, and the connections it has accepted.\<close>

record ('s, 'r) server =
  sv_state :: 's
  sv_conns :: "'r conn list"

definition serving :: "'s \<Rightarrow> ('s, 'r) server" where
  "serving st = \<lparr>sv_state = st, sv_conns = []\<rparr>"

text \<open>
  A round of the loop in a \<^verbatim>\<open>listen\<close> method: an error of \<^verbatim>\<open>Accept\<close> is logged and the loop goes
  on, a connection (with the bytes that arrive on it) is given to a goroutine.
\<close>

definition accept :: "goerr + bytes \<Rightarrow> ('s, 'r) server \<Rightarrow> ('s, 'r) server" where
  "accept outcome s =
     (case outcome of
        Inl e \<Rightarrow> s
      | Inr data \<Rightarrow> s\<lparr>sv_conns := sv_conns s @ [\<lparr>co_read = [], co_unread = scan_lines data, co_answers = []\<rparr>]\<rparr>)"

text \<open>
  The program runs: it accepts connections, the goroutine of a connection handles its next line,
  and the program's other goroutines (\<open>bg\<close>) work on the state.  \<open>h\<close> handles a line, given what it
  finds outside the program (\<open>ok\<close>); \<open>okl\<close> is what is known about the lines that clients send.  A
  panic ends the process and has no rule.
\<close>

inductive server_step :: "('e \<Rightarrow> 's \<Rightarrow> bool) \<Rightarrow> ('e \<Rightarrow> bytes \<Rightarrow> 's \<Rightarrow> ('s \<times> 'r) go) \<Rightarrow> ('s \<Rightarrow> 's \<Rightarrow> bool) \<Rightarrow> (bytes \<Rightarrow> bool)
    \<Rightarrow> ('s, 'r) server \<Rightarrow> ('s, 'r) server \<Rightarrow> bool"
  for ok h bg okl where
  accept: "(\<And>data. outcome = Inr data \<Longrightarrow> list_all okl (scan_lines data)) \<Longrightarrow>
     server_step ok h bg okl s (accept outcome s)"
| line: "i < length (sv_conns s) \<Longrightarrow> co_unread (sv_conns s ! i) = l # rest \<Longrightarrow> ok e (sv_state s) \<Longrightarrow>
     h e l (sv_state s) = Ret (st, r) \<Longrightarrow>
     server_step ok h bg okl s (s\<lparr>sv_state := st, sv_conns := (sv_conns s)[i := \<lparr>co_read = co_read (sv_conns s ! i) @ [l],
       co_unread = rest, co_answers = co_answers (sv_conns s ! i) @ [r]\<rparr>]\<rparr>)"
| background: "bg (sv_state s) st \<Longrightarrow> server_step ok h bg okl s (s\<lparr>sv_state := st\<rparr>)"

text \<open>
  A contract for such a program: what holds of the state (\<open>inv\<close>), and how an answer has to fit
  its line (\<open>good\<close>).
\<close>

definition conn_ok :: "(bytes \<Rightarrow> bool) \<Rightarrow> (bytes \<Rightarrow> 'r \<Rightarrow> bool) \<Rightarrow> 'r conn \<Rightarrow> bool" where
  "conn_ok okl good c \<longleftrightarrow> list_all2 good (co_read c) (co_answers c) \<and> list_all okl (co_unread c)
     \<and> (\<exists>data. scan_lines data = co_read c @ co_unread c)"

locale line_server =
  fixes init :: "('s, 'r) server \<Rightarrow> bool" and ok :: "'e \<Rightarrow> 's \<Rightarrow> bool"
    and h :: "'e \<Rightarrow> bytes \<Rightarrow> 's \<Rightarrow> ('s \<times> 'r) go" and bg :: "'s \<Rightarrow> 's \<Rightarrow> bool"
    and okl :: "bytes \<Rightarrow> bool" and inv :: "'s \<Rightarrow> bool" and good :: "bytes \<Rightarrow> 'r \<Rightarrow> bool"
  assumes start: "init s \<Longrightarrow> sv_conns s = [] \<and> inv (sv_state s)"
    and handles: "inv st \<Longrightarrow> ok e st \<Longrightarrow> okl l \<Longrightarrow> h e l st = Ret (st', r) \<Longrightarrow> inv st' \<and> good l r"
    and works: "inv st \<Longrightarrow> bg st st' \<Longrightarrow> inv st'"
begin

lemma step_inv:
  assumes s: "inv (sv_state s)" "list_all (conn_ok okl good) (sv_conns s)" and step: "server_step ok h bg okl s t"
  shows "inv (sv_state t) \<and> list_all (conn_ok okl good) (sv_conns t)"
  using step
proof cases
  case (accept outcome)
  then show ?thesis using s by (cases outcome) (auto simp: GoConn.accept_def conn_ok_def)
next
  case (line i l rest e st r)
  let ?c = "sv_conns s ! i"
  have c: "conn_ok okl good ?c" using s(2) line(2) by (simp add: list_all_length)
  then have "okl l" using line(3) by (simp add: conn_ok_def)
  then have r: "inv st" "good l r" using handles [OF s(1) line(4) _ line(5)] by simp_all
  have "conn_ok okl good \<lparr>co_read = co_read ?c @ [l], co_unread = rest, co_answers = co_answers ?c @ [r]\<rparr>"
    using c r(2) line(3) by (auto simp: conn_ok_def intro: list_all2_appendI)
  then show ?thesis using r(1) s(2) line(1) by (auto simp: list_all_iff dest!: set_update_subset_insert [THEN subsetD])
next
  case (background st)
  then show ?thesis using s works by simp
qed

end

sublocale line_server \<subseteq> srv: invariant_system init "server_step ok h bg okl"
  "\<lambda>s. inv (sv_state s) \<and> list_all (conn_ok okl good) (sv_conns s)"
  using step_inv by unfold_locales (auto dest: start)

text \<open>A handler that does not panic can always go on with the next line.\<close>

lemma server_progress:
  assumes "i < length (sv_conns s)" and "co_unread (sv_conns s ! i) = l # rest" and "ok e (sv_state s)"
    and "\<exists>st r. h e l (sv_state s) = Ret (st, r)"
  shows "\<exists>t. server_step ok h bg okl s t \<and> length (co_unread (sv_conns t ! i)) < length (co_unread (sv_conns s ! i))"
proof -
  obtain st r where "h e l (sv_state s) = Ret (st, r)" using assms(4) by blast
  from server_step.line [where ok = ok and h = h and e = e and s = s, OF assms(1,2,3) this] show ?thesis using assms(1,2) by fastforce
qed

text \<open>The other goroutines run for a while.\<close>

lemma background_steps:
  assumes "reachable init (server_step ok h bg okl) s" and "reachable (\<lambda>t. t = sv_state s) bg st"
  shows "reachable init (server_step ok h bg okl) (s\<lparr>sv_state := st\<rparr>)"
  using assms(2)
proof (induction rule: reachable.induct)
  case (reach_init t)
  then show ?case using assms(1) by simp
next
  case (reach_step t u)
  from server_step.background [where s = "s\<lparr>sv_state := t\<rparr>" and st = u and bg = bg] reach_step show ?case
    by (intro reachable.reach_step [OF reach_step.IH]) simp
qed

text \<open>A client connects, sends one short line, and is answered.\<close>

lemma one_line_served:
  assumes "reachable init (server_step ok h bg okl) s" and "ok e (sv_state s)" and "h e [65] (sv_state s) = Ret (st, r)"
    and "okl [65]"
  shows "\<exists>t. reachable init (server_step ok h bg okl) t \<and> sv_state t = st
    \<and> sv_conns t = sv_conns s @ [\<lparr>co_read = [[65]], co_unread = [], co_answers = [r]\<rparr>]"
proof -
  let ?s = "accept (Inr [65, 10]) s"
  have lines: "scan_lines [65, 10] = [[65]]" using scan_lines_line [of "[65]" "[]"] by (simp add: line_ok_def maxTokenSize_def)
  have r: "reachable init (server_step ok h bg okl) ?s"
    by (rule reach_step [OF assms(1) server_step.accept]) (simp add: lines assms(4))
  have s: "sv_state ?s = sv_state s" "sv_conns ?s = sv_conns s @ [\<lparr>co_read = [], co_unread = [[65]], co_answers = []\<rparr>]"
    by (simp_all add: accept_def lines)
  let ?t = "?s\<lparr>sv_state := st, sv_conns := (sv_conns ?s)[length (sv_conns s) := \<lparr>co_read = co_read (sv_conns ?s ! length (sv_conns s)) @ [[65]],
       co_unread = [], co_answers = co_answers (sv_conns ?s ! length (sv_conns s)) @ [r]\<rparr>]\<rparr>"
  have "server_step ok h bg okl ?s ?t"
    by (rule server_step.line [where e = e]) (simp_all add: s assms(2,3))
  then have "reachable init (server_step ok h bg okl) ?t" by (rule reach_step [OF r])
  moreover have "sv_state ?t = st" "sv_conns ?t = sv_conns s @ [\<lparr>co_read = [[65]], co_unread = [], co_answers = [r]\<rparr>]"
    by (simp_all add: s)
  ultimately show ?thesis by blast
qed

section \<open>Processes\<close>

text \<open>What the operating system answers to the calls of a \<^verbatim>\<open>listen\<close> method.\<close>

record listen_env =
  le_mkdir :: "goerr option"
  le_listen :: "goerr option"

text \<open>
  \<^verbatim>\<open>main\<close> ends with a status, or goes on serving until a signal arrives.  The listeners run in
  goroutines: when one cannot be started, the process ends with status 1.
\<close>

datatype 'a process = Exit int | Serving 'a

end
