(* ===== verification/Circuit_Rotation.thy ===== *)
theory Circuit_Rotation
  imports Circuit_Constructor GoConn
begin

text \<open>
  \<^verbatim>\<open>camo-circuit/main.go\<close>: configuration, the periodic rotation of circuits, and the commands
  that are sent to \<^verbatim>\<open>camo-wireguard\<close> over its socket.  The service behind that socket is a
  parameter with a state of its own, so that the controller can be composed with the model
  of \<^verbatim>\<open>camo-wireguard\<close>; what the gossip agent answers, the clock and the random source are
  given per rotation.
\<close>

section \<open>Configuration\<close>

record circuitConfig =
  cc_OwnServerID :: string
  cc_RotationInterval :: int
  cc_GossipSocket :: string
  cc_WireGuardSocket :: string
  cc_APNSocket :: string
  cc_SIMPoolSocket :: string

definition defaultCircuitConfig :: circuitConfig where
  "defaultCircuitConfig =
     \<lparr>cc_OwnServerID = [], cc_RotationInterval = chainRotationInterval div second,
      cc_GossipSocket = ''/run/camo/gossip.sock'', cc_WireGuardSocket = ''/run/camo/wireguard.sock'',
      cc_APNSocket = ''/run/apncore.sock'', cc_SIMPoolSocket = ''/run/camo/simpool.sock''\<rparr>"

text \<open>
  \<^verbatim>\<open>json.Unmarshal(data, cfg)\<close> is a parameter: it returns the configuration with the fields
  found in the file overwritten, and an error.
\<close>

definition loadCircuitConfig ::
  "(bytes \<Rightarrow> circuitConfig \<Rightarrow> circuitConfig \<times> goerr option) \<Rightarrow> read_result
   \<Rightarrow> circuitConfig option \<times> goerr option" where
  "loadCircuitConfig unmarshal file =
     (case file of
        ReadNotExist e \<Rightarrow> (Some defaultCircuitConfig, None)
      | ReadError e \<Rightarrow> (None, Some e)
      | ReadOK data \<Rightarrow> (let (cfg, err) = unmarshal data defaultCircuitConfig in (Some cfg, err)))"

text \<open>
  What \<^verbatim>\<open>main\<close> does about an empty \<^verbatim>\<open>OwnServerID\<close>: it asks the gossip agent for its record.  A
  failed connection ends the program; an unreadable answer leaves the identifier empty.
\<close>

definition resolveOwnServerID :: "circuitConfig \<Rightarrow> goerr + string option \<Rightarrow> goerr + circuitConfig" where
  "resolveOwnServerID cfg node_info =
     (if cc_OwnServerID cfg = [] then
        (case node_info of
           Inl e \<Rightarrow> Inl e
         | Inr sid \<Rightarrow> Inr (cfg\<lparr>cc_OwnServerID := case sid of Some s \<Rightarrow> s | None \<Rightarrow> []\<rparr>))
      else Inr cfg)"

section \<open>Commands to the WireGuard service\<close>

text \<open>
  A request and its answer are string maps.  The service takes its state and a request and
  returns the new state with the answer; \<open>Inl\<close> stands for a failed connection or write, an
  answer that cannot be read is the empty map.
\<close>

type_synonym strmap = "(string, string) gomap"
type_synonym 'w wg_service = "'w \<Rightarrow> strmap \<Rightarrow> 'w \<times> (goerr + strmap)"

definition wgCommand :: "'w wg_service \<Rightarrow> 'w \<Rightarrow> strmap \<Rightarrow> 'w \<times> goerr option" where
  "wgCommand wg w cmd =
     (case wg w cmd of
        (w', Inl e) \<Rightarrow> (w', Some e)
      | (w', Inr resp) \<Rightarrow>
          if mget resp ''status'' = Some ''ok'' then (w', None)
          else (w', Some (Errorf (''wg command failed: '' @
                  (case mget resp ''message'' of Some t \<Rightarrow> t | None \<Rightarrow> [])))))"

definition addWGPeer :: "'w wg_service \<Rightarrow> 'w \<Rightarrow> string \<Rightarrow> string \<Rightarrow> string \<Rightarrow> 'w \<times> goerr option" where
  "addWGPeer wg w pubKey endpoint allowedIP =
     wgCommand wg w [(''command'', ''add_peer''), (''public_key'', pubKey),
       (''endpoint'', endpoint), (''allowed_ip'', allowedIP)]"

definition removeWGPeer :: "'w wg_service \<Rightarrow> 'w \<Rightarrow> string \<Rightarrow> 'w \<times> goerr option" where
  "removeWGPeer wg w pubKey =
     wgCommand wg w [(''command'', ''remove_peer''), (''public_key'', pubKey)]"

section \<open>Rotation\<close>

fun hop_in_list :: "Hop list \<Rightarrow> string \<Rightarrow> bool" where
  "hop_in_list [] serverID = False"
| "hop_in_list (h # hs) serverID = (if hop_ServerID h = serverID then True else hop_in_list hs serverID)"

definition hopInCircuit :: "Circuit \<Rightarrow> string \<Rightarrow> bool" where
  "hopInCircuit c serverID = hop_in_list (ci_Hops c) serverID"

text \<open>
  The answer of the gossip agent to \<^verbatim>\<open>list_peers\<close>: an error of the connection or of the
  decoder, or the status and the records.  The status is not looked at.
\<close>

definition queryGossipPeers :: "goerr + string \<times> cNodeRecord list \<Rightarrow> goerr + cNodeRecord list" where
  "queryGossipPeers reply = (case reply of Inl e \<Rightarrow> Inl e | Inr (status, records) \<Rightarrow> Inr records)"

text \<open>What one rotation finds outside the controller.\<close>

record rotation_env =
  re_now :: instant
  re_gossip :: "goerr + string \<times> cNodeRecord list"
  re_entropy :: entropy
  re_built :: instant

text \<open>
  The controller's state: the circuits, the state of the WireGuard service, and the
  goroutines that still have to remove the peers of a replaced circuit (old and new one).
\<close>

record 'w controller =
  rc_store :: circuitStore
  rc_wg :: 'w
  rc_teardowns :: "(Circuit \<times> Circuit) list"

fun add_hop_peers :: "'w wg_service \<Rightarrow> 'w \<Rightarrow> Hop list \<Rightarrow> 'w" where
  "add_hop_peers wg w [] = w"
| "add_hop_peers wg w (h # hs) =
     add_hop_peers wg (fst (addWGPeer wg w (hop_WireGuardPubKey h) (hop_WireGuardAddress h)
       (hop_WireGuardAddress h @ ''/32''))) hs"

definition rotate_circuit :: "'w wg_service \<Rightarrow> string \<Rightarrow> rotation_env \<Rightarrow> Circuit \<Rightarrow> 'w controller
    \<Rightarrow> 'w controller \<times> goerr option" where
  "rotate_circuit wg own env old r =
     (case queryGossipPeers (re_gossip env) of
        Inl e \<Rightarrow> (r, Some (WrapErr ''gossip query failed: '' e))
      | Inr nodes \<Rightarrow>
          (case build own nodes (ci_DeviceIMSI old) (re_entropy env) (re_built env) of
             Inl e \<Rightarrow> (r, Some (WrapErr ''circuit construction failed: '' e))
           | Inr newCircuit \<Rightarrow>
               (r\<lparr>rc_wg := add_hop_peers wg (rc_wg r) (ci_Hops newCircuit),
                  rc_store := cs_put newCircuit (rc_store r),
                  rc_teardowns := rc_teardowns r @ [(old, newCircuit)]\<rparr>, None)))"

text \<open>The goroutine that runs five seconds later; errors of the service are ignored.\<close>

fun remove_old_peers :: "'w wg_service \<Rightarrow> Circuit \<Rightarrow> 'w \<Rightarrow> Hop list \<Rightarrow> 'w" where
  "remove_old_peers wg newCircuit w [] = w"
| "remove_old_peers wg newCircuit w (h # hs) =
     remove_old_peers wg newCircuit
       (if \<not> hopInCircuit newCircuit (hop_ServerID h)
        then fst (removeWGPeer wg w (hop_WireGuardPubKey h)) else w) hs"

definition teardown :: "'w wg_service \<Rightarrow> Circuit \<Rightarrow> Circuit \<Rightarrow> 'w \<Rightarrow> 'w" where
  "teardown wg old newCircuit w = remove_old_peers wg newCircuit w (ci_Hops old)"

text \<open>One pass over a snapshot of the circuits; errors are logged and the pass goes on.\<close>

fun rotate_due :: "'w wg_service \<Rightarrow> string \<Rightarrow> (string \<Rightarrow> rotation_env) \<Rightarrow> Circuit list
    \<Rightarrow> 'w controller \<Rightarrow> 'w controller" where
  "rotate_due wg own env [] r = r"
| "rotate_due wg own env (c # cs) r =
     rotate_due wg own env cs
       (if re_now (env (ci_DeviceIMSI c)) > ci_RotateAt c
        then fst (rotate_circuit wg own (env (ci_DeviceIMSI c)) c r) else r)"

definition checkRotations :: "'w wg_service \<Rightarrow> string \<Rightarrow> (string \<Rightarrow> rotation_env) \<Rightarrow> string list
    \<Rightarrow> 'w controller \<Rightarrow> 'w controller" where
  "checkRotations wg own env ord r = rotate_due wg own env (cs_all ord (rc_store r)) r"

text \<open>
  The running program: the ticker starts passes one after the other, and the goroutines of
  past rotations take their turn at any time.
\<close>

inductive controller_step :: "'w wg_service \<Rightarrow> string \<Rightarrow> 'w controller \<Rightarrow> 'w controller \<Rightarrow> bool"
  for wg own where
  tick: "range_order (cs_circuits (rc_store r)) ord \<Longrightarrow>
     controller_step wg own r (checkRotations wg own env ord r)"
| drain: "rc_teardowns r = pre @ (old, newCircuit) # post \<Longrightarrow>
     controller_step wg own r
       (r\<lparr>rc_wg := teardown wg old newCircuit (rc_wg r), rc_teardowns := pre @ post\<rparr>)"

text \<open>
  \<^verbatim>\<open>main\<close>: the configuration, the identity, and the rotation manager on an empty store.  \<open>node_info\<close> is
  what the gossip agent behind a socket answers, \<open>w0\<close> the state of the WireGuard service.
\<close>

definition circuit_main :: "(bytes \<Rightarrow> circuitConfig \<Rightarrow> circuitConfig \<times> goerr option) \<Rightarrow> read_result
    \<Rightarrow> (string \<Rightarrow> goerr + string option) \<Rightarrow> 'w \<Rightarrow> (circuitConfig \<times> 'w controller) process" where
  "circuit_main unmarshal file node_info w0 =
     (case loadCircuitConfig unmarshal file of
        (Some cfg, None) \<Rightarrow>
          (case resolveOwnServerID cfg (node_info (cc_GossipSocket cfg)) of
             Inl e \<Rightarrow> Exit 1
           | Inr cfg' \<Rightarrow> Serving (cfg', \<lparr>rc_store = newCircuitStore, rc_wg = w0, rc_teardowns = []\<rparr>))
      | _ \<Rightarrow> Exit 1)"

definition circuit_started :: "circuitConfig \<Rightarrow> 'w controller \<Rightarrow> bool" where
  "circuit_started cfg r \<longleftrightarrow> (\<exists>unmarshal file node_info w0. circuit_main unmarshal file node_info w0 = Serving (cfg, r))"

inductive_cases controller_stepE: "controller_step wg own r r'"

section \<open>Lemmas\<close>

lemma hopInCircuit_iff [simp]: "hopInCircuit c s \<longleftrightarrow> s \<in> hop_ServerID ` set (ci_Hops c)"
proof -
  have "hop_in_list hs s \<longleftrightarrow> s \<in> hop_ServerID ` set hs" for hs
    by (induction hs) auto
  then show ?thesis by (simp add: hopInCircuit_def)
qed

lemma rotate_cases:
  obtains (gossip) e where "re_gossip env = Inl e"
      "rotate_circuit wg own env old r = (r, Some (WrapErr ''gossip query failed: '' e))"
  | (construction) st nodes e where "re_gossip env = Inr (st, nodes)"
      "build own nodes (ci_DeviceIMSI old) (re_entropy env) (re_built env) = Inl e"
      "rotate_circuit wg own env old r = (r, Some (WrapErr ''circuit construction failed: '' e))"
  | (rotated) st nodes c where "re_gossip env = Inr (st, nodes)"
      "build own nodes (ci_DeviceIMSI old) (re_entropy env) (re_built env) = Inr c"
      "rotate_circuit wg own env old r =
        (r\<lparr>rc_wg := add_hop_peers wg (rc_wg r) (ci_Hops c), rc_store := cs_put c (rc_store r),
           rc_teardowns := rc_teardowns r @ [(old, c)]\<rparr>, None)"
proof (cases "re_gossip env")
  case (Inl e)
  then show ?thesis by (intro gossip) (simp_all add: rotate_circuit_def queryGossipPeers_def)
next
  case (Inr p)
  then obtain st nodes where g: "re_gossip env = Inr (st, nodes)" by (cases p) auto
  show ?thesis
  proof (cases "build own nodes (ci_DeviceIMSI old) (re_entropy env) (re_built env)")
    case (Inl e)
    with g show ?thesis by (intro construction) (simp_all add: rotate_circuit_def queryGossipPeers_def)
  next
    case (Inr c)
    with g show ?thesis by (intro rotated) (simp_all add: rotate_circuit_def queryGossipPeers_def)
  qed
qed

lemma build_imsi: "build own nodes imsi ent now = Inr c \<Longrightarrow> ci_DeviceIMSI c = imsi"
  by (erule build_shape) simp

lemma build_rotate_at: "build own nodes imsi ent now = Inr c \<Longrightarrow> ci_RotateAt c = now + chainRotationInterval"
  by (erule build_shape) simp

text \<open>Specification of a pass: the circuit a device has afterwards.\<close>

definition rotated_circuit :: "string \<Rightarrow> rotation_env \<Rightarrow> Circuit \<Rightarrow> Circuit" where
  "rotated_circuit own env c =
     (if re_now env > ci_RotateAt c then
        (case re_gossip env of
           Inl e \<Rightarrow> c
         | Inr (st, nodes) \<Rightarrow>
             (case build own nodes (ci_DeviceIMSI c) (re_entropy env) (re_built env) of
                Inl e \<Rightarrow> c | Inr c' \<Rightarrow> c'))
      else c)"

lemma rotated_circuit_imsi [simp]: "ci_DeviceIMSI (rotated_circuit own env c) = ci_DeviceIMSI c"
  by (auto simp: rotated_circuit_def build_imsi split: sum.splits)

lemma rotate_store_lookup:
  assumes "re_now env > ci_RotateAt c" and "mget (cs_circuits (rc_store r)) (ci_DeviceIMSI c) = Some c"
  shows "mget (cs_circuits (rc_store (fst (rotate_circuit wg own env c r)))) i =
    (if i = ci_DeviceIMSI c then Some (rotated_circuit own env c) else mget (cs_circuits (rc_store r)) i)"
  using assms by (cases rule: rotate_cases [of env wg own c r])
    (auto simp: rotated_circuit_def build_imsi)

lemma rotate_due_lookup:
  assumes "distinct (map ci_DeviceIMSI cs)"
    and "\<forall>c \<in> set cs. mget (cs_circuits (rc_store r)) (ci_DeviceIMSI c) = Some c"
  shows "mget (cs_circuits (rc_store (rotate_due wg own env cs r))) i =
    (if i \<in> ci_DeviceIMSI ` set cs
     then map_option (rotated_circuit own (env i)) (mget (cs_circuits (rc_store r)) i)
     else mget (cs_circuits (rc_store r)) i)"
  using assms
proof (induction cs arbitrary: r)
  case Nil
  then show ?case by simp
next
  case (Cons c cs)
  let ?e = "env (ci_DeviceIMSI c)"
  define r' where "r' = (if re_now ?e > ci_RotateAt c then fst (rotate_circuit wg own ?e c r) else r)"
  have r': "mget (cs_circuits (rc_store r')) k =
      (if k = ci_DeviceIMSI c then Some (rotated_circuit own ?e c) else mget (cs_circuits (rc_store r)) k)" for k
    using rotate_store_lookup [of c ?e r wg own k] Cons.prems(2)
    by (auto simp: r'_def rotated_circuit_def)
  have "\<forall>d \<in> set cs. mget (cs_circuits (rc_store r')) (ci_DeviceIMSI d) = Some d"
  proof
    fix d assume d: "d \<in> set cs"
    then have "ci_DeviceIMSI d \<noteq> ci_DeviceIMSI c" using Cons.prems(1) by (metis distinct.simps(2) image_eqI list.map(2) list.set_map)
    then show "mget (cs_circuits (rc_store r')) (ci_DeviceIMSI d) = Some d"
      using Cons.prems(2) d by (simp add: r')
  qed
  moreover have "distinct (map ci_DeviceIMSI cs)" using Cons.prems(1) by simp
  ultimately have tail: "mget (cs_circuits (rc_store (rotate_due wg own env cs r'))) i =
      (if i \<in> ci_DeviceIMSI ` set cs
       then map_option (rotated_circuit own (env i)) (mget (cs_circuits (rc_store r')) i)
       else mget (cs_circuits (rc_store r')) i)"
    by (rule Cons.IH [rotated])
  have step: "rotate_due wg own env (c # cs) r = rotate_due wg own env cs r'"
    by (simp add: r'_def)
  have "mget (cs_circuits (rc_store r)) (ci_DeviceIMSI c) = Some c" "ci_DeviceIMSI c \<notin> ci_DeviceIMSI ` set cs"
    using Cons.prems by auto
  then show ?case
    unfolding step tail r' by (cases "i = ci_DeviceIMSI c") simp_all
qed

lemma cs_all_snapshot:
  assumes "cs_sound s" and "range_order (cs_circuits s) ord"
  shows "distinct (map ci_DeviceIMSI (cs_all ord s))"
    and "c \<in> set (cs_all ord s) \<longleftrightarrow> mget (cs_circuits s) (ci_DeviceIMSI c) = Some c"
proof -
  have wf: "mwf (cs_circuits s)" and keyed: "\<And>i c. mget (cs_circuits s) i = Some c \<Longrightarrow> ci_DeviceIMSI c = i"
    using assms(1) by (auto simp: cs_sound_def)
  show "c \<in> set (cs_all ord s) \<longleftrightarrow> mget (cs_circuits s) (ci_DeviceIMSI c) = Some c"
    using set_range_vals [OF assms(2) wf] keyed by (metis cs_all_def)
  have "ci_DeviceIMSI (the (mget (cs_circuits s) k)) = k" if "k \<in> set ord" for k
    using range_orderD(1) [OF assms(2) wf] that keyed by auto
  then have "map ci_DeviceIMSI (cs_all ord s) = ord"
    by (simp add: cs_all_def range_vals_map [OF assms(2)] map_idI)
  then show "distinct (map ci_DeviceIMSI (cs_all ord s))"
    using assms(2) by (simp add: range_order_def)
qed

lemma checkRotations_empty:
  assumes "cs_circuits (rc_store r) = []" and "range_order (cs_circuits (rc_store r)) ord"
  shows "checkRotations wg own env ord r = r"
proof -
  have "ord = []" using assms by (simp add: range_order_def)
  then show ?thesis by (simp add: checkRotations_def cs_all_def range_vals_def map_filter_def)
qed

lemma circuit_main_Serving:
  assumes "circuit_main unmarshal file node_info w0 = Serving (cfg, r)"
  shows "r = \<lparr>rc_store = newCircuitStore, rc_wg = w0, rc_teardowns = []\<rparr>"
    and "\<exists>cfg0. loadCircuitConfig unmarshal file = (Some cfg0, None)
      \<and> resolveOwnServerID cfg0 (node_info (cc_GossipSocket cfg0)) = Inr cfg"
  using assms by (auto simp: circuit_main_def split: prod.splits option.splits sum.splits)

interpretation idle: invariant_system
  "circuit_started cfg" "controller_step wg own" "\<lambda>r. cs_circuits (rc_store r) = [] \<and> rc_teardowns r = []" for cfg wg own
proof unfold_locales
  fix r t :: "'a controller"
  show "circuit_started cfg r \<Longrightarrow> cs_circuits (rc_store r) = [] \<and> rc_teardowns r = []"
    by (auto simp: circuit_started_def newCircuitStore_def dest!: circuit_main_Serving(1))
  assume "cs_circuits (rc_store r) = [] \<and> rc_teardowns r = []" and "controller_step wg own r t"
  then show "cs_circuits (rc_store t) = [] \<and> rc_teardowns t = []"
    by (auto elim!: controller_stepE simp: checkRotations_empty)
qed

text \<open>The requests of a new circuit's hops; answers do not matter.\<close>

definition add_request :: "Hop \<Rightarrow> strmap" where
  "add_request h = [(''command'', ''add_peer''), (''public_key'', hop_WireGuardPubKey h),
     (''endpoint'', hop_WireGuardAddress h), (''allowed_ip'', hop_WireGuardAddress h @ ''/32'')]"

lemma fst_wgCommand: "fst (wgCommand wg w cmd) = fst (wg w cmd)"
  by (simp add: wgCommand_def split: prod.split sum.split)

lemma add_hop_peers_fold: "add_hop_peers wg w hs = fold (\<lambda>h w. fst (wg w (add_request h))) hs w"
  by (induction hs arbitrary: w) (simp_all add: addWGPeer_def fst_wgCommand add_request_def)

lemma remove_old_peers_fold:
  "remove_old_peers wg c w hs =
     fold (\<lambda>h w. fst (removeWGPeer wg w (hop_WireGuardPubKey h)))
       (filter (\<lambda>h. hop_ServerID h \<notin> hop_ServerID ` set (ci_Hops c)) hs) w"
  by (induction hs arbitrary: w) auto

text \<open>A service that accepts and records every request.\<close>

definition log_service :: "strmap list wg_service" where
  "log_service w cmd = (w @ [cmd], Inr [(''status'', ''ok'')])"

definition ex_hop :: "string \<Rightarrow> Hop" where
  "ex_hop s = \<lparr>hop_ServerID = s, hop_WireGuardAddress = ''203.0.113.7:51820'',
     hop_WireGuardPubKey = ''key-'' @ s, hop_Jurisdiction = ''SE'', hop_HopIndex = 0, hop_IsExit = False\<rparr>"

definition ex_circuit :: "string \<Rightarrow> string \<Rightarrow> string list \<Rightarrow> Circuit" where
  "ex_circuit imsi token hops = \<lparr>ci_CircuitID = [], ci_DeviceIMSI = imsi, ci_SessionToken = token,
     ci_Hops = map ex_hop hops, ci_CreatedAt = 0, ci_RotateAt = chainRotationInterval\<rparr>"

text \<open>The example network answers, and the circuit of device i is replaced.\<close>

definition ex_rotation_env :: "instant \<Rightarrow> rotation_env" where
  "ex_rotation_env now = \<lparr>re_now = now, re_gossip = Inr (''ok'', ex_nodes), re_entropy = zero_entropy, re_built = now\<rparr>"

definition ex_controller :: "strmap list controller" where
  "ex_controller = \<lparr>rc_store = cs_put (ex_circuit ''i'' ''t'' [''b'']) newCircuitStore, rc_wg = [], rc_teardowns = []\<rparr>"

lemma build_token_length:
  "build own nodes imsi ent now = Inr c \<Longrightarrow> length (ci_SessionToken c) = 24"
  by (erule build_shape) (auto simp: newSessionToken_def sessionTokenLen_def length_EncodeToString_Std split: sum.splits dest: rand_Read_length)

section \<open>Properties\<close>

text \<open>C8. One pass of the rotation manager acts on every device separately: a device without a
  circuit gets none, a circuit that is not due stays, a due circuit is replaced by the one
  \<^verbatim>\<open>build\<close> constructs for it, and it stays when the gossip query or the construction fails.
  The order in which the pass visits the circuits does not matter.\<close>

theorem checkRotations_pointwise:
  assumes "cs_sound (rc_store r)" and "range_order (cs_circuits (rc_store r)) ord"
  shows "getByIMSI imsi (rc_store (checkRotations wg own env ord r)) =
    map_option (rotated_circuit own (env imsi)) (getByIMSI imsi (rc_store r))"
proof -
  have all: "\<forall>c \<in> set (cs_all ord (rc_store r)). mget (cs_circuits (rc_store r)) (ci_DeviceIMSI c) = Some c"
    using cs_all_snapshot(2) [OF assms] by blast
  have mem: "imsi \<in> ci_DeviceIMSI ` set (cs_all ord (rc_store r)) \<longleftrightarrow> mget (cs_circuits (rc_store r)) imsi \<noteq> None"
  proof
    assume "imsi \<in> ci_DeviceIMSI ` set (cs_all ord (rc_store r))"
    then show "mget (cs_circuits (rc_store r)) imsi \<noteq> None" using all by auto
  next
    assume "mget (cs_circuits (rc_store r)) imsi \<noteq> None"
    then obtain c where c: "mget (cs_circuits (rc_store r)) imsi = Some c" by blast
    then have "ci_DeviceIMSI c = imsi" using assms(1) by (simp add: cs_sound_def)
    with c show "imsi \<in> ci_DeviceIMSI ` set (cs_all ord (rc_store r))"
      using cs_all_snapshot(2) [OF assms, of c] by (metis imageI)
  qed
  show ?thesis
    unfolding checkRotations_def getByIMSI_def
      rotate_due_lookup [OF cs_all_snapshot(1) [OF assms] all] mem by auto
qed

theorem checkRotations_pointwise_witness:
  "\<exists>c. getByIMSI ''i'' (rc_store (checkRotations log_service ''own'' (\<lambda>i. ex_rotation_env (601 * second)) [''i''] ex_controller)) = Some c
    \<and> build ''own'' ex_nodes ''i'' zero_entropy (601 * second) = Inr c"
proof -
  have sound: "cs_sound (rc_store ex_controller)" by (simp add: ex_controller_def cs_sound_put cs_sound_new)
  have ord: "range_order (cs_circuits (rc_store ex_controller)) [''i'']"
    by (simp add: range_order_def cs_put_def newCircuitStore_def ex_circuit_def ex_controller_def)
  obtain c where "build ''own'' ex_nodes ''i'' zero_entropy (601 * second) = Inr c" using build_ex_nodes by blast
  then show ?thesis
    unfolding checkRotations_pointwise [OF sound ord]
    by (simp add: getByIMSI_def rotated_circuit_def ex_circuit_def ex_controller_def ex_rotation_env_def
        chainRotationInterval_def second_def)
qed

text \<open>C21. A rotation that returns an error changes nothing: no peer is programmed, the store and
  the pending removals are as before, and the error is that of the gossip query or of the
  construction.  A rotation without error sends the WireGuard service one \<^verbatim>\<open>add_peer\<close> per hop of the new
  circuit, in order, whatever it answers; it stores the circuit that \<^verbatim>\<open>build\<close> made from the answer of the
  gossip agent under the same device and its token, drops the token of the circuit that the
  device had, schedules the removal of the old peers, and leaves every other device alone.\<close>

theorem rotate_circuit_outcome:
  "case rotate_circuit wg own env old r of
     (r', Some e) \<Rightarrow> r' = r
       \<and> ((\<exists>e'. re_gossip env = Inl e' \<and> e = WrapErr ''gossip query failed: '' e')
          \<or> (\<exists>st nodes e'. re_gossip env = Inr (st, nodes)
               \<and> build own nodes (ci_DeviceIMSI old) (re_entropy env) (re_built env) = Inl e'
               \<and> e = WrapErr ''circuit construction failed: '' e'))
   | (r', None) \<Rightarrow> (\<exists>st nodes c. re_gossip env = Inr (st, nodes)
        \<and> build own nodes (ci_DeviceIMSI old) (re_entropy env) (re_built env) = Inr c
        \<and> rc_wg r' = fold (\<lambda>h w. fst (wg w [(''command'', ''add_peer''), (''public_key'', hop_WireGuardPubKey h),
            (''endpoint'', hop_WireGuardAddress h), (''allowed_ip'', hop_WireGuardAddress h @ ''/32'')])) (ci_Hops c) (rc_wg r)
        \<and> getByIMSI (ci_DeviceIMSI old) (rc_store r') = Some c
        \<and> ci_RotateAt c = re_built env + 600 * second
        \<and> rc_teardowns r' = rc_teardowns r @ [(old, c)]
        \<and> mget (cs_byToken (rc_store r')) (ci_SessionToken c) = Some c
        \<and> (\<forall>c0. getByIMSI (ci_DeviceIMSI old) (rc_store r) = Some c0 \<and> ci_SessionToken c0 \<noteq> ci_SessionToken c \<longrightarrow>
             mget (cs_byToken (rc_store r')) (ci_SessionToken c0) = None))
      \<and> (\<forall>i. i \<noteq> ci_DeviceIMSI old \<longrightarrow> getByIMSI i (rc_store r') = getByIMSI i (rc_store r))"
proof (cases rule: rotate_cases [of env wg own old r])
  case (rotated st nodes c)
  then show ?thesis
    by (simp add: getByIMSI_def build_imsi build_rotate_at chainRotationInterval_def add_hop_peers_fold add_request_def)
qed auto

theorem rotate_circuit_outcome_witness:
  "\<exists>r'. rotate_circuit log_service ''own'' (ex_rotation_env 9) (ex_circuit ''i'' ''t'' [''b'']) ex_controller = (r', None)
    \<and> length (rc_wg r') = 3 \<and> mget (cs_byToken (rc_store r')) ''t'' = None \<and> getByIMSI ''i'' (rc_store r') \<noteq> None"
proof -
  let ?old = "ex_circuit ''i'' ''t'' [''b'']"
  have old: "ci_DeviceIMSI ?old = ''i''" "ci_SessionToken ?old = ''t''" by (simp_all add: ex_circuit_def)
  obtain uuid token where b: "build ''own'' ex_nodes ''i'' zero_entropy 9 =
      Inr (assembled [ex_nodes ! 0, ex_nodes ! 1] (ex_nodes ! 2) uuid ''i'' token 9)" using build_ex_nodes by blast
  let ?c = "assembled [ex_nodes ! 0, ex_nodes ! 1] (ex_nodes ! 2) uuid ''i'' token 9"
  have len: "length (ci_Hops ?c) = 3" by simp
  have tok: "ci_SessionToken ?c \<noteq> ''t''" using build_token_length [OF b] by auto
  have log: "length (fold (\<lambda>h w. fst (log_service w (g h))) hs w) = length w + length hs" for g :: "Hop \<Rightarrow> strmap" and hs w
    by (induction hs arbitrary: w) (simp_all add: log_service_def)
  obtain r' res where r': "rotate_circuit log_service ''own'' (ex_rotation_env 9) ?old ex_controller = (r', res)"
    by (cases "rotate_circuit log_service ''own'' (ex_rotation_env 9) ?old ex_controller")
  have "res = None" using r' b by (cases rule: rotate_cases [of "ex_rotation_env 9" log_service "''own''" ?old ex_controller])
    (simp_all add: ex_rotation_env_def old)
  with rotate_circuit_outcome [where wg = log_service and own = "''own''" and env = "ex_rotation_env 9"
      and old = ?old and r = ex_controller] r' show ?thesis
    using b len tok log by (auto simp: ex_rotation_env_def old ex_controller_def getByIMSI_def)
qed

text \<open>The removal that follows a rotation sends one \<^verbatim>\<open>remove_peer\<close> for every hop of the old
  circuit whose server is not in the new circuit, in order, and nothing else; a server that
  the new circuit still uses is never removed.\<close>

theorem teardown_removes_unused:
  "teardown log_service old newCircuit w =
     w @ map (\<lambda>h. [(''command'', ''remove_peer''), (''public_key'', hop_WireGuardPubKey h)])
       (filter (\<lambda>h. hop_ServerID h \<notin> hop_ServerID ` set (ci_Hops newCircuit)) (ci_Hops old))"
proof -
  have "fold (\<lambda>h w. fst (removeWGPeer log_service w (hop_WireGuardPubKey h))) hs w =
      w @ map (\<lambda>h. [(''command'', ''remove_peer''), (''public_key'', hop_WireGuardPubKey h)]) hs" for hs
    by (induction hs arbitrary: w) (auto simp: removeWGPeer_def wgCommand_def log_service_def)
  then show ?thesis by (simp add: teardown_def remove_old_peers_fold)
qed

text \<open>Other devices are not considered: after the circuit of device 1 was replaced, the removal
  takes away the peer of server b although the circuit of device 2 still runs through it.\<close>

theorem teardown_breaks_other_circuit:
  "\<exists>s old newCircuit other. getByIMSI ''1'' s = Some newCircuit \<and> getByIMSI ''2'' s = Some other
    \<and> cs_sound s \<and> cs_indexed s \<and> hopInCircuit other ''b''
    \<and> teardown log_service old newCircuit [] = [[(''command'', ''remove_peer''), (''public_key'', ''key-b'')]]"
proof (intro exI conjI)
  let ?s = "cs_put (ex_circuit ''1'' ''t3'' [''c'']) (cs_put (ex_circuit ''2'' ''t2'' [''b'']) newCircuitStore)"
  show "getByIMSI ''1'' ?s = Some (ex_circuit ''1'' ''t3'' [''c''])"
    "getByIMSI ''2'' ?s = Some (ex_circuit ''2'' ''t2'' [''b''])"
    by (simp_all add: getByIMSI_def ex_circuit_def)
  show "cs_sound ?s" by (simp add: cs_sound_put cs_sound_new)
  show "cs_indexed ?s"
    by (auto simp: cs_indexed_def ex_circuit_def newCircuitStore_def)
  show "hopInCircuit (ex_circuit ''2'' ''t2'' [''b'']) ''b''"
    by (simp add: ex_circuit_def ex_hop_def)
  show "teardown log_service (ex_circuit ''1'' ''t1'' [''b'', ''c'']) (ex_circuit ''1'' ''t3'' [''c'']) [] =
      [[(''command'', ''remove_peer''), (''public_key'', ''key-b'')]]"
    by (simp add: teardown_def ex_circuit_def ex_hop_def removeWGPeer_def wgCommand_def log_service_def)
qed

text \<open>C38. The program never holds a circuit: \<^verbatim>\<open>main\<close> starts with an empty store, and the rotation
  manager, the only writer, replaces circuits but never creates a first one.  So in every state
  that is reachable from a start of \<^verbatim>\<open>main\<close> no device has a circuit and nothing waits for removal.\<close>

theorem controller_never_has_circuits:
  assumes "reachable (circuit_started cfg) (controller_step wg (cc_OwnServerID cfg)) r"
  shows "getByIMSI imsi (rc_store r) = None \<and> cs_count (rc_store r) = 0 \<and> rc_teardowns r = []"
  using idle.reachable_inv [OF assms] by (simp add: getByIMSI_def cs_count_def)

theorem controller_never_has_circuits_witness:
  "\<exists>cfg r0. circuit_main (\<lambda>data cfg. (cfg, None)) (ReadOK []) (\<lambda>sock. Inr (Some ''own'')) ([] :: strmap list) = Serving (cfg, r0)
    \<and> cc_OwnServerID cfg = ''own'' \<and> cs_count (rc_store (checkRotations log_service ''own'' (\<lambda>i. undefined) [] r0)) = 0"
proof -
  let ?r = "\<lparr>rc_store = newCircuitStore, rc_wg = [] :: strmap list, rc_teardowns = []\<rparr>"
  let ?cfg = "defaultCircuitConfig\<lparr>cc_OwnServerID := ''own''\<rparr>"
  have m: "circuit_main (\<lambda>data cfg. (cfg, None)) (ReadOK []) (\<lambda>sock. Inr (Some ''own'')) ([] :: strmap list) = Serving (?cfg, ?r)"
    by (simp add: circuit_main_def loadCircuitConfig_def resolveOwnServerID_def defaultCircuitConfig_def)
  then have "circuit_started ?cfg ?r" unfolding circuit_started_def by blast
  then have "reachable (circuit_started ?cfg) (controller_step log_service (cc_OwnServerID ?cfg)) ?r" by (rule reach_init)
  moreover have "controller_step log_service (cc_OwnServerID ?cfg) ?r (checkRotations log_service ''own'' (\<lambda>i. undefined) [] ?r)"
    using tick [of ?r "[]" log_service "''own''" "\<lambda>i. undefined"] by (simp add: range_order_def newCircuitStore_def)
  ultimately have "reachable (circuit_started ?cfg) (controller_step log_service (cc_OwnServerID ?cfg))
      (checkRotations log_service ''own'' (\<lambda>i. undefined) [] ?r)"
    by (rule reach_step)
  from controller_never_has_circuits [OF this] m show ?thesis by (intro exI [of _ ?cfg] exI [of _ ?r]) simp
qed

end
