(* ===== verification/Sim_Pool.thy ===== *)
theory Sim_Pool
  imports Prelude
begin

text \<open>
  \<^verbatim>\<open>camo-simpool/sim.go\<close> and \<^verbatim>\<open>camo-simpool/pool.go\<close>: SIM cards, the pool, and the allocation of
  SIMs to sessions.  The pool's map holds pointers; each SIM object is reachable through
  exactly one key, so a write through a pointer is a modification of that key's value.
\<close>

section \<open>SIM cards\<close>

datatype SIMState = SIMActive | SIMDormant | SIMUnavailable

text \<open>The state names; the \<^verbatim>\<open>default\<close> branch of the source is for values that no code assigns.\<close>

fun SIMState_String :: "SIMState \<Rightarrow> string" where
  "SIMState_String SIMActive = ''active''"
| "SIMState_String SIMDormant = ''dormant''"
| "SIMState_String SIMUnavailable = ''unavailable''"

record SIM =
  sim_IMSI :: string
  sim_Carrier :: string
  sim_Jurisdiction :: string
  sim_APN :: string
  sim_State :: SIMState
  sim_LastHealthCheck :: instant
  sim_LastActive :: instant
  sim_FailCount :: int
  sim_CurrentSession :: string

definition isAvailable :: "SIM \<Rightarrow> bool" where
  "isAvailable s \<longleftrightarrow> sim_State s = SIMActive \<and> sim_CurrentSession s = []"

definition isDormantCandidate :: "SIM \<Rightarrow> bool" where
  "isDormantCandidate s \<longleftrightarrow> sim_State s = SIMDormant"

definition isRetirementCandidate :: "instant \<Rightarrow> SIM \<Rightarrow> bool" where
  "isRetirementCandidate lastRotationTime s =
     (if sim_State s \<noteq> SIMActive then False
      else if sim_CurrentSession s \<noteq> [] then False
      else if sim_LastActive s > lastRotationTime then False
      else True)"

section \<open>The pool\<close>

record pool =
  po_sims :: "(string, SIM) gomap"
  po_lastRotation :: instant
  po_sessions :: "(string, string) gomap"

definition errNoAvailableSIM :: goerr where
  "errNoAvailableSIM = Errorf ''no available SIM in active subset''"

definition errSessionNotFound :: goerr where
  "errSessionNotFound = Errorf ''session not found''"

definition errSIMNotFound :: goerr where
  "errSIMNotFound = Errorf ''SIM not found''"

definition newPool :: "instant \<Rightarrow> pool" where
  "newPool now = \<lparr>po_sims = [], po_lastRotation = now, po_sessions = []\<rparr>"

definition pool_add :: "SIM \<Rightarrow> pool \<Rightarrow> pool" where
  "pool_add sim p =
     p\<lparr>po_sims := mput (sim_IMSI sim) (sim\<lparr>sim_State := SIMDormant\<rparr>) (po_sims p)\<rparr>"

text \<open>The keys a \<^verbatim>\<open>range\<close> loop collects because their SIM satisfies a condition.\<close>

definition range_keys :: "(SIM \<Rightarrow> bool) \<Rightarrow> (string, SIM) gomap \<Rightarrow> string list \<Rightarrow> string list" where
  "range_keys P sims ord = filter (\<lambda>k. case mget sims k of Some s \<Rightarrow> P s | None \<Rightarrow> False) ord"

text \<open>
  \<^verbatim>\<open>rand.Int(rand.Reader, max)\<close> is a parameter; its documentation promises a value in the range
  from 0 to below \<^verbatim>\<open>max\<close>, or an error.
\<close>

type_synonym rand_int = "int \<Rightarrow> goerr + int"

definition rand_Int_ok :: "rand_int \<Rightarrow> bool" where
  "rand_Int_ok rd \<longleftrightarrow> (\<forall>m v. 0 < m \<longrightarrow> rd m = Inr v \<longrightarrow> 0 \<le> v \<and> v < m)"

definition pool_randomInt :: "rand_int \<Rightarrow> int \<Rightarrow> goerr + int" where
  "pool_randomInt rd n = (if n \<le> 0 then Inl (Errorf ''n must be positive'') else rd n)"

definition allocate :: "rand_int \<Rightarrow> string list \<Rightarrow> string \<Rightarrow> instant \<Rightarrow> pool \<Rightarrow> pool \<times> (goerr + string)" where
  "allocate rd ord sessionToken now p =
     (let candidates = range_keys isAvailable (po_sims p) ord in
      if candidates = [] then (p, Inl errNoAvailableSIM)
      else case pool_randomInt rd (int (length candidates)) of
        Inl e \<Rightarrow> (p, Inl e)
      | Inr idx \<Rightarrow>
          (let chosen = candidates ! nat idx;
               imsi = (case mget (po_sims p) chosen of Some s \<Rightarrow> sim_IMSI s | None \<Rightarrow> [])
           in (p\<lparr>po_sims := mmod chosen
                   (\<lambda>s. s\<lparr>sim_CurrentSession := sessionToken, sim_LastActive := now\<rparr>) (po_sims p),
                 po_sessions := mput sessionToken imsi (po_sessions p)\<rparr>, Inr imsi)))"

definition release :: "string \<Rightarrow> pool \<Rightarrow> pool \<times> goerr option" where
  "release sessionToken p =
     (case mget (po_sessions p) sessionToken of
        None \<Rightarrow> (p, Some errSessionNotFound)
      | Some imsi \<Rightarrow>
          (let p1 = p\<lparr>po_sessions := mdel sessionToken (po_sessions p)\<rparr> in
           case mget (po_sims p1) imsi of
             None \<Rightarrow> (p1, Some errSIMNotFound)
           | Some sim \<Rightarrow>
               (p1\<lparr>po_sims := mmod imsi (\<lambda>s. s\<lparr>sim_CurrentSession := []\<rparr>) (po_sims p1)\<rparr>, None)))"

text \<open>The counters of \<^verbatim>\<open>stats\<close>, updated SIM by SIM.\<close>

definition stats :: "pool \<Rightarrow> int \<times> int \<times> int" where
  "stats p =
     fold (\<lambda>(k, sim) (total, active, available).
        if sim_State sim = SIMActive
        then (if sim_CurrentSession sim = [] then (total + 1, active + 1, available + 1)
              else (total + 1, active + 1, available))
        else (total + 1, active, available)) (po_sims p) (0, 0, 0)"

definition markUnavailable :: "string \<Rightarrow> pool \<Rightarrow> pool" where
  "markUnavailable imsi p =
     p\<lparr>po_sims := mmod imsi
        (\<lambda>s. s\<lparr>sim_State := SIMUnavailable, sim_FailCount := wrap64 (sim_FailCount s + 1)\<rparr>) (po_sims p)\<rparr>"

definition markDormant :: "string \<Rightarrow> pool \<Rightarrow> pool" where
  "markDormant imsi p =
     p\<lparr>po_sims := mmod imsi
        (\<lambda>s. s\<lparr>sim_State := SIMDormant, sim_FailCount := 0\<rparr>) (po_sims p)\<rparr>"

definition activeSIMs :: "string list \<Rightarrow> pool \<Rightarrow> string list" where
  "activeSIMs ord p = range_keys (\<lambda>s. sim_State s = SIMActive) (po_sims p) ord"

text \<open>\<^verbatim>\<open>allSIMs\<close> returns the pointers; they are represented by their keys.\<close>

definition allSIMs :: "string list \<Rightarrow> pool \<Rightarrow> string list" where
  "allSIMs ord p = range_keys (\<lambda>s. True) (po_sims p) ord"

section \<open>Sessions and SIMs\<close>

text \<open>
  The invariant: SIMs are filed under their own IMSI, and the session map and the
  \<^verbatim>\<open>CurrentSession\<close> fields describe the same matching between sessions and SIMs.
\<close>

definition pool_inv :: "pool \<Rightarrow> bool" where
  "pool_inv p \<longleftrightarrow> mwf (po_sims p) \<and> mwf (po_sessions p)
     \<and> (\<forall>k s. mget (po_sims p) k = Some s \<longrightarrow> sim_IMSI s = k)
     \<and> mget (po_sessions p) [] = None
     \<and> (\<forall>t i. mget (po_sessions p) t = Some i \<longrightarrow>
          (\<exists>s. mget (po_sims p) i = Some s \<and> sim_CurrentSession s = t))
     \<and> (\<forall>i s. mget (po_sims p) i = Some s \<and> sim_CurrentSession s \<noteq> [] \<longrightarrow>
          mget (po_sessions p) (sim_CurrentSession s) = Some i)"

text \<open>
  The part of the invariant that does not depend on how clients choose their tokens: every
  recorded session owns a SIM.  It excludes only the empty token, and a token in use may be
  presented again.
\<close>

definition pool_sound :: "pool \<Rightarrow> bool" where
  "pool_sound p \<longleftrightarrow> mwf (po_sims p) \<and> mwf (po_sessions p)
     \<and> (\<forall>k s. mget (po_sims p) k = Some s \<longrightarrow> sim_IMSI s = k)
     \<and> mget (po_sessions p) [] = None
     \<and> (\<forall>t i. mget (po_sessions p) t = Some i \<longrightarrow>
          (\<exists>s. mget (po_sims p) i = Some s \<and> sim_CurrentSession s = t))"

lemma pool_inv_sound: "pool_inv p \<Longrightarrow> pool_sound p"
  by (simp add: pool_inv_def pool_sound_def)

text \<open>A modification of a SIM that keeps its identity and its session.\<close>

definition session_neutral :: "(SIM \<Rightarrow> SIM) \<Rightarrow> bool" where
  "session_neutral f \<longleftrightarrow>
     (\<forall>s. sim_IMSI (f s) = sim_IMSI s \<and> sim_CurrentSession (f s) = sim_CurrentSession s)"

lemma pool_inv_mmod:
  assumes "pool_inv p" and "session_neutral f"
  shows "pool_inv (p\<lparr>po_sims := mmod k f (po_sims p)\<rparr>)"
  using assms unfolding pool_inv_def session_neutral_def
  by (auto split: if_splits) (metis option.inject)+

lemma pool_inv_lastRotation [simp]: "pool_inv (p\<lparr>po_lastRotation := t\<rparr>) \<longleftrightarrow> pool_inv p"
  by (simp add: pool_inv_def)

lemma pool_inv_new: "pool_inv (newPool now)"
  by (simp add: pool_inv_def newPool_def)

lemma range_keys_mem:
  "k \<in> set (range_keys P sims ord) \<longleftrightarrow> k \<in> set ord \<and> (\<exists>s. mget sims k = Some s \<and> P s)"
  by (auto simp: range_keys_def split: option.splits)

lemma distinct_range_keys: "distinct ord \<Longrightarrow> distinct (range_keys P sims ord)"
  by (simp add: range_keys_def)

lemma pool_invD:
  assumes "pool_inv p"
  shows "mwf (po_sims p)" and "mwf (po_sessions p)"
    and "mget (po_sims p) k = Some s \<Longrightarrow> sim_IMSI s = k"
    and "mget (po_sessions p) [] = None"
    and "mget (po_sessions p) t = Some i \<Longrightarrow> \<exists>s. mget (po_sims p) i = Some s \<and> sim_CurrentSession s = t"
    and "mget (po_sims p) k = Some s \<Longrightarrow> sim_CurrentSession s \<noteq> [] \<Longrightarrow>
      mget (po_sessions p) (sim_CurrentSession s) = Some k"
  using assms by (simp_all add: pool_inv_def)

lemma pool_inv_add:
  assumes "pool_inv p" and "mget (po_sims p) (sim_IMSI sim) = None" and "sim_CurrentSession sim = []"
  shows "pool_inv (pool_add sim p)"
proof -
  have "\<exists>s. mget (po_sims (pool_add sim p)) i = Some s \<and> sim_CurrentSession s = t"
    if "mget (po_sessions p) t = Some i" for t i
    using pool_invD(5) [OF assms(1) that] assms(2) by (auto simp: pool_add_def)
  then show ?thesis
    using pool_invD [OF assms(1)] assms(3) unfolding pool_inv_def
    by (auto simp: pool_add_def split: if_splits)
qed

lemma allocate_cases [consumes 2, case_names none random chosen]:
  assumes "pool_sound p" and "rand_Int_ok rd"
  obtains (none) "range_keys isAvailable (po_sims p) ord = []"
      "allocate rd ord t now p = (p, Inl errNoAvailableSIM)"
  | (random) e where "range_keys isAvailable (po_sims p) ord \<noteq> []"
      "rd (int (length (range_keys isAvailable (po_sims p) ord))) = Inl e"
      "allocate rd ord t now p = (p, Inl e)"
  | (chosen) i s where "i \<in> set ord" "mget (po_sims p) i = Some s" "isAvailable s"
      "allocate rd ord t now p =
        (p\<lparr>po_sims := mmod i (\<lambda>s. s\<lparr>sim_CurrentSession := t, sim_LastActive := now\<rparr>) (po_sims p),
           po_sessions := mput t i (po_sessions p)\<rparr>, Inr i)"
proof -
  let ?c = "range_keys isAvailable (po_sims p) ord"
  consider "?c = []" | e where "?c \<noteq> []" "rd (int (length ?c)) = Inl e"
    | v where "?c \<noteq> []" "rd (int (length ?c)) = Inr v"
    by (cases "rd (int (length ?c))") auto
  then show ?thesis
  proof cases
    case 1
    then show ?thesis by (intro none) (simp_all add: allocate_def)
  next
    case 2
    then show ?thesis by (intro random) (simp_all add: allocate_def pool_randomInt_def Let_def)
  next
    case (3 v)
    then have "nat v < length ?c"
      using assms(2) unfolding rand_Int_ok_def by (metis length_greater_0_conv nat_less_iff of_nat_0_less_iff)
    then have "?c ! nat v \<in> set ?c" by (rule nth_mem)
    then obtain s where s: "?c ! nat v \<in> set ord" "mget (po_sims p) (?c ! nat v) = Some s" "isAvailable s"
      by (auto simp: range_keys_mem)
    moreover have "sim_IMSI s = ?c ! nat v" using s assms(1) by (simp add: pool_sound_def)
    ultimately show ?thesis
      using 3 by (intro chosen [of "?c ! nat v" s]) (simp_all add: allocate_def pool_randomInt_def Let_def)
  qed
qed

lemma pool_inv_assign:
  assumes "pool_inv p" and "mget (po_sims p) i = Some s" and "sim_CurrentSession s = []"
    and "t \<noteq> []" and "mget (po_sessions p) t = None"
  shows "pool_inv (p\<lparr>po_sims := mmod i (\<lambda>s. s\<lparr>sim_CurrentSession := t, sim_LastActive := now\<rparr>) (po_sims p),
    po_sessions := mput t i (po_sessions p)\<rparr>)"
  using assms unfolding pool_inv_def by (auto split: if_splits) (metis option.inject)+

lemma pool_inv_allocate:
  assumes "pool_inv p" and "rand_Int_ok rd" and "t \<noteq> []" and "mget (po_sessions p) t = None"
  shows "pool_inv (fst (allocate rd ord t now p))"
  using pool_inv_sound [OF assms(1)] assms(2)
proof (cases rule: allocate_cases [where ord = ord and t = t and now = now])
  case (chosen i s)
  then show ?thesis
    using pool_inv_assign [OF assms(1) chosen(2) _ assms(3,4)] by (simp add: isAvailable_def)
qed (use assms(1) in simp_all)

lemma release_cases [consumes 1, case_names missing freed]:
  assumes "pool_sound p"
  obtains (missing) "mget (po_sessions p) t = None" "release t p = (p, Some errSessionNotFound)"
  | (freed) i s where "mget (po_sessions p) t = Some i" "mget (po_sims p) i = Some s"
      "sim_CurrentSession s = t" "t \<noteq> []"
      "release t p = (p\<lparr>po_sessions := mdel t (po_sessions p),
         po_sims := mmod i (\<lambda>s. s\<lparr>sim_CurrentSession := []\<rparr>) (po_sims p)\<rparr>, None)"
proof (cases "mget (po_sessions p) t")
  case None
  then show ?thesis by (intro missing) (simp_all add: release_def)
next
  case (Some i)
  with assms obtain s where "mget (po_sims p) i = Some s" "sim_CurrentSession s = t" "t \<noteq> []"
    unfolding pool_sound_def by (metis option.distinct(1))
  with Some show ?thesis by (intro freed) (simp_all add: release_def Let_def)
qed

lemma pool_inv_release:
  assumes "pool_inv p"
  shows "pool_inv (fst (release t p))"
  using pool_inv_sound [OF assms]
proof (cases rule: release_cases [where t = t])
  case (freed i s)
  with assms show ?thesis
    unfolding freed(5) pool_inv_def by (auto split: if_splits) (metis option.inject)+
qed (use assms in simp)

lemma pool_soundD:
  assumes "pool_sound p"
  shows "mwf (po_sims p)" and "mwf (po_sessions p)"
    and "mget (po_sims p) k = Some s \<Longrightarrow> sim_IMSI s = k"
    and "mget (po_sessions p) [] = None"
    and "mget (po_sessions p) t = Some i \<Longrightarrow> \<exists>s. mget (po_sims p) i = Some s \<and> sim_CurrentSession s = t"
  using assms by (simp_all add: pool_sound_def)

lemma pool_sound_allocate:
  assumes "pool_sound p" and "rand_Int_ok rd" and "t \<noteq> []"
  shows "pool_sound (fst (allocate rd ord t now p))"
  using assms(1,2)
proof (cases rule: allocate_cases [where ord = ord and t = t and now = now])
  case (chosen i s)
  have own: "\<exists>s. mget (mmod i (\<lambda>s. s\<lparr>sim_CurrentSession := t, sim_LastActive := now\<rparr>) (po_sims p)) j = Some s
      \<and> sim_CurrentSession s = u" if "mget (mput t i (po_sessions p)) u = Some j" for u j
  proof (cases "u = t")
    case True
    with that chosen(2) show ?thesis by simp
  next
    case False
    then have "mget (po_sessions p) u = Some j" using that by simp
    then obtain s' where s': "mget (po_sims p) j = Some s'" "sim_CurrentSession s' = u" "u \<noteq> []"
      using pool_soundD(4,5) [OF assms(1)] by (metis option.distinct(1))
    moreover have "j \<noteq> i" using s' chosen(2,3) by (auto simp: isAvailable_def)
    ultimately show ?thesis by simp
  qed
  show ?thesis
    using pool_soundD(1-4) [OF assms(1)] assms(3) own unfolding chosen(4) pool_sound_def by auto
qed (use assms(1) in simp_all)

lemma pool_sound_release:
  assumes "pool_sound p"
  shows "pool_sound (fst (release t p))"
  using assms
proof (cases rule: release_cases [where t = t])
  case (freed i s)
  have own: "\<exists>s. mget (mmod i (\<lambda>s. s\<lparr>sim_CurrentSession := []\<rparr>) (po_sims p)) j = Some s
      \<and> sim_CurrentSession s = u" if "mget (mdel t (po_sessions p)) u = Some j" for u j
  proof -
    have u: "u \<noteq> t" "mget (po_sessions p) u = Some j" using that by (simp_all split: if_splits)
    then obtain s' where s': "mget (po_sims p) j = Some s'" "sim_CurrentSession s' = u"
      using pool_soundD(5) [OF assms] by blast
    moreover have "j \<noteq> i" using s' u(1) freed(2,3) by auto
    ultimately show ?thesis by simp
  qed
  show ?thesis
    using pool_soundD(1-4) [OF assms] own unfolding freed(5) pool_sound_def by auto
qed (use assms in simp)

lemma session_neutral_fields [simp]:
  "session_neutral (\<lambda>s. s\<lparr>sim_State := st\<rparr>)"
  "session_neutral (\<lambda>s. s\<lparr>sim_LastHealthCheck := t\<rparr>)"
  "session_neutral (\<lambda>s. s\<lparr>sim_State := st, sim_FailCount := g s\<rparr>)"
  by (simp_all add: session_neutral_def)

lemma pool_inv_mark [simp]:
  "pool_inv p \<Longrightarrow> pool_inv (markUnavailable i p)"
  "pool_inv p \<Longrightarrow> pool_inv (markDormant i p)"
  unfolding markUnavailable_def markDormant_def by (rule pool_inv_mmod; simp)+

lemma stats_counts:
  "stats p = (int (length (po_sims p)), int (mcount (\<lambda>s. sim_State s = SIMActive) (po_sims p)),
     int (mcount isAvailable (po_sims p)))"
proof -
  have "fold (\<lambda>(k, sim) (total, active, available).
        if sim_State sim = SIMActive
        then (if sim_CurrentSession sim = [] then (total + 1, active + 1, available + 1)
              else (total + 1, active + 1, available))
        else (total + 1, active, available)) m (a, b, c) =
      (a + int (length m), b + int (mcount (\<lambda>s. sim_State s = SIMActive) m), c + int (mcount isAvailable m))"
    for m :: "(string, SIM) gomap" and a b c
    by (induction m arbitrary: a b c) (simp_all add: mcount_def isAvailable_def split: prod.split)
  then show ?thesis by (simp add: stats_def)
qed

section \<open>Example pool\<close>

definition ex_sim :: "string \<Rightarrow> SIMState \<Rightarrow> SIM" where
  "ex_sim imsi st = \<lparr>sim_IMSI = imsi, sim_Carrier = ''1NCE'', sim_Jurisdiction = ''NL'',
     sim_APN = ''iot.1nce.net'', sim_State = st, sim_LastHealthCheck = 0, sim_LastActive = 0,
     sim_FailCount = 0, sim_CurrentSession = []\<rparr>"

definition ex_pool :: pool where
  "ex_pool = \<lparr>po_sims = [(''1'', ex_sim ''1'' SIMActive), (''2'', ex_sim ''2'' SIMActive)],
     po_lastRotation = 0, po_sessions = []\<rparr>"

definition first_choice :: rand_int where
  "first_choice m = Inr 0"

lemma ex_pool_facts [simp]:
  "pool_inv ex_pool" "rand_Int_ok first_choice" "range_order (po_sims ex_pool) [''1'', ''2'']"
  by (auto simp: pool_inv_def ex_pool_def mwf_def ex_sim_def rand_Int_ok_def first_choice_def range_order_def)

section \<open>Properties\<close>

text \<open>C7. Allocation for a new, non-empty token either leaves the pool as it is and reports an error,
  because no active idle SIM exists or the random source failed, or it returns an active SIM
  that had no session, records the session on both sides, and changes nothing else; the
  number of available SIMs drops by one.\<close>

theorem allocate_correct:
  assumes "pool_inv p" and "rand_Int_ok rd" and "range_order (po_sims p) ord"
    and "t \<noteq> []" and "mget (po_sessions p) t = None"
  shows "case allocate rd ord t now p of
      (p', Inl e) \<Rightarrow> p' = p \<and>
        ((\<nexists>i s. mget (po_sims p) i = Some s \<and> isAvailable s) \<and> e = errNoAvailableSIM \<or> (\<exists>n. rd n = Inl e))
    | (p', Inr i) \<Rightarrow> (\<exists>s. mget (po_sims p) i = Some s \<and> isAvailable s
          \<and> mget (po_sims p') i = Some (s\<lparr>sim_CurrentSession := t, sim_LastActive := now\<rparr>))
        \<and> mget (po_sessions p') t = Some i
        \<and> (\<forall>k. k \<noteq> i \<longrightarrow> mget (po_sims p') k = mget (po_sims p) k)
        \<and> (\<forall>u. u \<noteq> t \<longrightarrow> mget (po_sessions p') u = mget (po_sessions p) u)
        \<and> mcount isAvailable (po_sims p') + 1 = mcount isAvailable (po_sims p)"
  using pool_inv_sound [OF assms(1)] assms(2)
proof (cases rule: allocate_cases [where ord = ord and t = t and now = now])
  case none
  have "\<nexists>i s. mget (po_sims p) i = Some s \<and> isAvailable s"
  proof (intro notI, elim exE conjE)
    fix i s assume "mget (po_sims p) i = Some s" "isAvailable s"
    then have "i \<in> set (range_keys isAvailable (po_sims p) ord)"
      using range_orderD(1) [OF assms(3) pool_invD(1) [OF assms(1)], of i] by (simp add: range_keys_mem)
    with none show False by simp
  qed
  with none show ?thesis by simp
next
  case (random e)
  then show ?thesis by auto
next
  case (chosen i s)
  then show ?thesis
    using mcount_mmod [OF chosen(2), of isAvailable "\<lambda>s. s\<lparr>sim_CurrentSession := t, sim_LastActive := now\<rparr>"] assms(4)
    by (simp add: isAvailable_def)
qed

theorem allocate_correct_witness:
  "snd (allocate first_choice [''1'', ''2''] ''tok'' 9 ex_pool) = Inr ''1''
    \<and> mget (po_sessions (fst (allocate first_choice [''1'', ''2''] ''tok'' 9 ex_pool))) ''tok'' = Some ''1''"
proof -
  have "snd (allocate first_choice [''1'', ''2''] ''tok'' 9 ex_pool) = Inr ''1''"
    by (simp add: allocate_def ex_pool_def range_keys_def isAvailable_def ex_sim_def pool_randomInt_def
        first_choice_def Let_def)
  moreover have "mget (po_sessions ex_pool) ''tok'' = None" by (simp add: ex_pool_def)
  ultimately show ?thesis
    using allocate_correct [of ex_pool first_choice "[''1'', ''2'']" "''tok''" 9]
    by (cases "allocate first_choice [''1'', ''2''] ''tok'' 9 ex_pool") auto
qed

text \<open>C23. Releasing what was allocated for a non-empty token that was not in use: the release succeeds, the SIM is idle again, and apart from
  the time of its last use the pool is as it was before the allocation.\<close>

theorem release_allocate:
  assumes "pool_inv p" and "rand_Int_ok rd" and "t \<noteq> []" and "mget (po_sessions p) t = None"
    and "allocate rd ord t now p = (p', Inr i)"
  shows "\<exists>p''. release t p' = (p'', None)
    \<and> (\<forall>u. mget (po_sessions p'') u = mget (po_sessions p) u)
    \<and> (\<forall>k. mget (po_sims p'') k =
         (if k = i then map_option (\<lambda>s. s\<lparr>sim_LastActive := now\<rparr>) (mget (po_sims p) k)
          else mget (po_sims p) k))
    \<and> po_lastRotation p'' = po_lastRotation p"
  using pool_inv_sound [OF assms(1)] assms(2)
proof (cases rule: allocate_cases [where ord = ord and t = t and now = now])
  case (chosen j s)
  then have "p' = p\<lparr>po_sims := mmod i (\<lambda>s. s\<lparr>sim_CurrentSession := t, sim_LastActive := now\<rparr>) (po_sims p),
      po_sessions := mput t i (po_sessions p)\<rparr>" and s: "mget (po_sims p) i = Some s" "isAvailable s"
    using assms(5) by auto
  moreover have "s\<lparr>sim_LastActive := now, sim_CurrentSession := []\<rparr> = s\<lparr>sim_LastActive := now\<rparr>"
    using s(2) by (cases s) (simp add: isAvailable_def)
  ultimately show ?thesis
    using assms(4) by (simp add: release_def Let_def)
qed (use assms(5) in simp_all)

theorem release_allocate_witness:
  "\<exists>p''. release ''tok'' (fst (allocate first_choice [''1'', ''2''] ''tok'' 9 ex_pool)) = (p'', None)
    \<and> mget (po_sessions p'') ''tok'' = None"
proof -
  have snd: "snd (allocate first_choice [''1'', ''2''] ''tok'' 9 ex_pool) = Inr ''1''"
    by (simp add: allocate_def ex_pool_def range_keys_def isAvailable_def ex_sim_def pool_randomInt_def
        first_choice_def Let_def)
  have fresh: "mget (po_sessions ex_pool) ''tok'' = None" by (simp add: ex_pool_def)
  have "allocate first_choice [''1'', ''2''] ''tok'' 9 ex_pool =
      (fst (allocate first_choice [''1'', ''2''] ''tok'' 9 ex_pool), Inr ''1'')"
    using snd by (metis prod.collapse)
  from release_allocate [OF _ _ _ fresh this] fresh show ?thesis by auto
qed

text \<open>A token that is already in use is not refused: the second allocation takes another SIM, and
  after the session is released the first SIM keeps its session mark although no session
  refers to it.  It is never available again.\<close>

theorem allocate_same_token_leaks:
  "\<exists>p1 p2 p3. allocate first_choice [''1'', ''2''] ''tok'' 9 ex_pool = (p1, Inr ''1'')
    \<and> allocate first_choice [''1'', ''2''] ''tok'' 10 p1 = (p2, Inr ''2'')
    \<and> release ''tok'' p2 = (p3, None)
    \<and> po_sessions p3 = [] \<and> map_option sim_CurrentSession (mget (po_sims p3) ''1'') = Some ''tok''"
  by (simp add: allocate_def release_def ex_pool_def range_keys_def isAvailable_def ex_sim_def
      pool_randomInt_def first_choice_def Let_def)

text \<open>The empty token, which the API passes on when a request has none, does not occupy a SIM:
  the SIM handed out is still available and is handed out again.\<close>

theorem allocate_empty_token_shares:
  "\<exists>p1 p2. allocate first_choice [''1'', ''2''] [] 9 ex_pool = (p1, Inr ''1'')
    \<and> map_option isAvailable (mget (po_sims p1) ''1'') = Some True
    \<and> allocate first_choice [''1'', ''2''] ''tok'' 10 p1 = (p2, Inr ''1'')
    \<and> mget (po_sessions p2) [] = Some ''1'' \<and> mget (po_sessions p2) ''tok'' = Some ''1''"
  by (simp add: allocate_def ex_pool_def range_keys_def isAvailable_def ex_sim_def
      pool_randomInt_def first_choice_def Let_def)

end
