(* ===== verification/Sim_Rotation.thy ===== *)
theory Sim_Rotation
  imports Sim_Pool GoFloat
begin

text \<open>
  \<^verbatim>\<open>camo-simpool/rotation.go\<close>: the size of the active subset, its initialisation, one rotation
  cycle, and the goroutine that retires SIMs after the drain window.  The loops over the
  pool are given their iteration order; a loop that stops early is modelled by a recursion
  that stops at the same point.
\<close>

section \<open>Target size\<close>

definition simRotationInterval :: duration where "simRotationInterval = 480 * second"

text \<open>The constant 0.35, as the nearest binary64 number.\<close>

definition targetActiveRatio :: float64 where
  "targetActiveRatio = Fin 6305039478318694 (- 54)"

definition minActiveCount :: int where "minActiveCount = 4"

definition drainWindow :: duration where "drainWindow = 30 * second"

definition targetCount :: "pool \<Rightarrow> int" where
  "targetCount p =
     (let total = int (length (po_sims p));
          target = f64_to_int (f64_mul (f64_of_int total) targetActiveRatio)
      in if target < minActiveCount then minActiveCount else target)"

text \<open>The interval of the ticker: \<^verbatim>\<open>newRotator\<close> takes a positive configured value, in seconds.\<close>

definition rotatorInterval :: "int \<Rightarrow> duration" where
  "rotatorInterval cfg = (if cfg > 0 then wrap64 (cfg * second) else simRotationInterval)"

section \<open>Promotion loops\<close>

text \<open>
  The loop of \<^verbatim>\<open>initActiveSubset\<close>, which \<^verbatim>\<open>rotate\<close> repeats to fill up the subset: SIMs that are
  dormant become active until the counter reaches the target.
\<close>

fun promote_until :: "int \<Rightarrow> string list \<Rightarrow> (string, SIM) gomap \<Rightarrow> int \<Rightarrow> (string, SIM) gomap \<times> int" where
  "promote_until target [] sims promoted = (sims, promoted)"
| "promote_until target (k # ks) sims promoted =
     (if promoted \<ge> target then (sims, promoted)
      else case mget sims k of
        Some sim \<Rightarrow>
          if sim_State sim = SIMDormant
          then promote_until target ks (mmod k (\<lambda>s. s\<lparr>sim_State := SIMActive\<rparr>) sims) (promoted + 1)
          else promote_until target ks sims promoted
      | None \<Rightarrow> promote_until target ks sims promoted)"

definition initActiveSubset :: "string list \<Rightarrow> pool \<Rightarrow> pool" where
  "initActiveSubset ord p = p\<lparr>po_sims := fst (promote_until (targetCount p) ord (po_sims p) 0)\<rparr>"

text \<open>The loops that select at most \<open>limit\<close> SIMs satisfying a condition.\<close>

fun collect :: "(SIM \<Rightarrow> bool) \<Rightarrow> (string, SIM) gomap \<Rightarrow> int \<Rightarrow> string list \<Rightarrow> string list \<Rightarrow> string list" where
  "collect P sims limit [] out = out"
| "collect P sims limit (k # ks) out =
     (if int (length out) \<ge> limit then out
      else collect P sims limit ks
        (case mget sims k of Some sim \<Rightarrow> if P sim then out @ [k] else out | None \<Rightarrow> out))"

section \<open>One rotation cycle\<close>

definition replaceCount :: "rand_int \<Rightarrow> int \<Rightarrow> int" where
  "replaceCount rd activeCount =
     (let maxReplace = (if activeCount div 2 < 1 then 1 else activeCount div 2) in
      case pool_randomInt rd maxReplace of
        Inl e \<Rightarrow> 1
      | Inr v \<Rightarrow> if v = 0 then 1 else v)"

text \<open>
  \<open>o1\<close>, \<open>o2\<close> and \<open>o3\<close> are the orders of the three loops whose result depends on it.  The
  result is the new pool and the SIMs to be retired after the drain window.
\<close>

definition pool_rotate :: "rand_int \<Rightarrow> string list \<Rightarrow> string list \<Rightarrow> string list \<Rightarrow> instant \<Rightarrow> pool
    \<Rightarrow> pool \<times> string list" where
  "pool_rotate rd o1 o2 o3 now p =
     (let sims = po_sims p;
          target = targetCount p;
          activeCount = int (mcount (\<lambda>s. sim_State s = SIMActive) sims);
          toPromote = collect isDormantCandidate sims (replaceCount rd activeCount) o1 [];
          toRetire = collect (isRetirementCandidate (po_lastRotation p)) sims (int (length toPromote)) o2 [];
          sims1 = fold (\<lambda>k. mmod k (\<lambda>s. s\<lparr>sim_State := SIMActive\<rparr>)) toPromote sims;
          activeAfter = int (mcount (\<lambda>s. sim_State s = SIMActive) sims1);
          sims2 = (if activeAfter < target then fst (promote_until target o3 sims1 activeAfter) else sims1)
      in (p\<lparr>po_sims := sims2, po_lastRotation := now\<rparr>, toRetire))"

text \<open>The goroutine after the drain window, under the pool's lock.\<close>

definition drain_one :: "string \<Rightarrow> (string, SIM) gomap \<Rightarrow> (string, SIM) gomap" where
  "drain_one imsi sims =
     (case mget sims imsi of
        Some sim \<Rightarrow>
          if sim_CurrentSession sim = [] then mmod imsi (\<lambda>s. s\<lparr>sim_State := SIMDormant\<rparr>) sims else sims
      | None \<Rightarrow> sims)"

definition drain :: "string list \<Rightarrow> pool \<Rightarrow> pool" where
  "drain toRetire p = p\<lparr>po_sims := fold drain_one toRetire (po_sims p)\<rparr>"

section \<open>Lemmas on the loops\<close>

abbreviation n_active :: "(string, SIM) gomap \<Rightarrow> nat" where
  "n_active sims \<equiv> mcount (\<lambda>s. sim_State s = SIMActive) sims"

abbreviation n_dormant :: "(string, SIM) gomap \<Rightarrow> nat" where
  "n_dormant sims \<equiv> mcount (\<lambda>s. sim_State s = SIMDormant) sims"

lemma collect_take:
  "collect P sims limit ord out =
     out @ take (nat (limit - int (length out))) (range_keys P sims ord)"
proof (induction ord arbitrary: out)
  case Nil
  then show ?case by (simp add: range_keys_def)
next
  case (Cons k ks)
  show ?case
  proof (cases "int (length out) \<ge> limit")
    case True
    then show ?thesis by simp
  next
    case False
    then have "nat (limit - int (length out)) = Suc (nat (limit - int (Suc (length out))))" by simp
    with False Cons show ?thesis by (auto simp: range_keys_def split: option.splits)
  qed
qed

lemma collect_mem:
  assumes "k \<in> set (collect P sims limit ord [])"
  shows "k \<in> set ord \<and> (\<exists>s. mget sims k = Some s \<and> P s)"
  using assms by (auto simp: collect_take range_keys_mem dest!: in_set_takeD)

lemma distinct_collect: "distinct ord \<Longrightarrow> distinct (collect P sims limit ord [])"
  by (simp add: collect_take distinct_range_keys)

lemma length_range_keys:
  assumes "range_order sims ord" and "mwf sims"
  shows "length (range_keys P sims ord) = mcount P sims"
proof -
  have "length (range_keys P sims ord) = length (filter P (range_vals sims ord))"
  proof -
    have "mget sims k \<noteq> None" if "k \<in> set ord" for k
      using range_orderD(1) [OF assms] that by simp
    then have "range_keys P sims ord = filter (\<lambda>k. P (the (mget sims k))) ord"
      unfolding range_keys_def by (auto intro!: filter_cong split: option.splits)
    then show ?thesis
      by (simp add: range_vals_map [OF assms(1)] filter_map comp_def)
  qed
  also have "\<dots> = size (filter_mset P (mset (map snd sims)))"
    by (metis mset_filter mset_range_vals [OF assms] size_mset)
  also have "\<dots> = mcount P sims"
    by (metis mcount_filter mset_filter size_mset)
  finally show ?thesis .
qed

abbreviation activate :: "SIM \<Rightarrow> SIM" where
  "activate s \<equiv> s\<lparr>sim_State := SIMActive\<rparr>"

lemma range_keys_mmod: "k \<notin> set ks \<Longrightarrow> range_keys P (mmod k f sims) ks = range_keys P sims ks"
  unfolding range_keys_def by (rule filter_cong) auto

lemma mcount_activate:
  assumes "mget sims k = Some s" and "sim_State s = SIMDormant"
  shows "n_active (mmod k activate sims) = Suc (n_active sims)"
    and "Suc (n_dormant (mmod k activate sims)) = n_dormant sims"
  using mcount_mmod [OF assms(1), of "\<lambda>s. sim_State s = SIMActive" activate]
    mcount_mmod [OF assms(1), of "\<lambda>s. sim_State s = SIMDormant" activate] assms(2) by simp_all

lemma promote_until_counts:
  assumes "distinct ord"
  shows "snd (promote_until target ord sims c) =
      max c (min target (c + int (length (range_keys isDormantCandidate sims ord))))"
    and "int (n_active (fst (promote_until target ord sims c))) =
      int (n_active sims) + (snd (promote_until target ord sims c) - c)"
  using assms
proof (induction ord arbitrary: sims c)
  case Nil
  case 1
  then show ?case by (simp add: range_keys_def)
next
  case Nil
  case 2
  then show ?case by simp
next
  case (Cons k ks)
  {
    case 1
    then show ?case
      using Cons.IH(1) [of "mmod k activate sims" "c + 1"] Cons.IH(1) [of sims c]
      by (auto simp: range_keys_mmod isDormantCandidate_def split: option.splits)
        (auto simp: range_keys_def isDormantCandidate_def split: option.splits)
  next
    case 2
    then show ?case
      using Cons.IH(2) [of "mmod k activate sims" "c + 1"] Cons.IH(2) [of sims c] mcount_activate(1) [of sims k]
      by (auto split: option.splits)
  }
qed

lemma fold_activate_counts:
  assumes "distinct ks" and "\<forall>k \<in> set ks. \<exists>s. mget sims k = Some s \<and> sim_State s = SIMDormant"
  shows "n_active (fold (\<lambda>k. mmod k activate) ks sims) = n_active sims + length ks
    \<and> n_dormant (fold (\<lambda>k. mmod k activate) ks sims) + length ks = n_dormant sims"
  using assms
proof (induction ks arbitrary: sims)
  case Nil
  then show ?case by simp
next
  case (Cons k ks)
  obtain s where s: "mget sims k = Some s" "sim_State s = SIMDormant" using Cons.prems(2) by auto
  have "\<forall>j \<in> set ks. \<exists>s. mget (mmod k activate sims) j = Some s \<and> sim_State s = SIMDormant"
    using Cons.prems by auto
  from Cons.IH [OF _ this] Cons.prems(1) mcount_activate [OF s] show ?case by simp
qed

text \<open>
  The frame of a rotation: every SIM is as before, except that some dormant ones are active.
\<close>

definition promoted_from :: "(string, SIM) gomap \<Rightarrow> (string, SIM) gomap \<Rightarrow> bool" where
  "promoted_from sims sims' \<longleftrightarrow> mkeys sims' = mkeys sims \<and>
     (\<forall>i. mget sims' i = mget sims i \<or>
        (\<exists>s. mget sims i = Some s \<and> sim_State s = SIMDormant \<and> mget sims' i = Some (activate s)))"

lemma promoted_from_refl [simp]: "promoted_from sims sims"
  by (simp add: promoted_from_def)

lemma promoted_from_trans [trans]:
  assumes "promoted_from a b" and "promoted_from b c"
  shows "promoted_from a c"
  unfolding promoted_from_def
proof (intro conjI allI)
  show "mkeys c = mkeys a" using assms by (simp add: promoted_from_def)
  fix i
  consider "mget b i = mget a i"
    | s where "mget a i = Some s" "sim_State s = SIMDormant" "mget b i = Some (activate s)"
    using assms(1) unfolding promoted_from_def by blast
  then show "mget c i = mget a i \<or>
      (\<exists>s. mget a i = Some s \<and> sim_State s = SIMDormant \<and> mget c i = Some (activate s))"
  proof cases
    case 1
    with assms(2) show ?thesis unfolding promoted_from_def by metis
  next
    case (2 s)
    moreover have "mget c i = mget b i"
    proof (rule ccontr)
      assume "mget c i \<noteq> mget b i"
      with assms(2) obtain t where "mget b i = Some t" "sim_State t = SIMDormant"
        unfolding promoted_from_def by blast
      with 2(3) show False by auto
    qed
    ultimately show ?thesis by simp
  qed
qed

lemma promoted_from_activate:
  assumes "mget sims k = Some s" and "sim_State s = SIMDormant"
  shows "promoted_from sims (mmod k activate sims)"
  using assms by (simp add: promoted_from_def)

lemma promoted_from_promote_until: "promoted_from sims (fst (promote_until target ord sims c))"
proof (induction ord arbitrary: sims c)
  case (Cons k ks)
  consider "c \<ge> target" | "\<not> c \<ge> target" "mget sims k = None"
    | s where "\<not> c \<ge> target" "mget sims k = Some s" "sim_State s \<noteq> SIMDormant"
    | s where "\<not> c \<ge> target" "mget sims k = Some s" "sim_State s = SIMDormant"
    by (cases "mget sims k") blast+
  then show ?case
  proof cases
    case (4 s)
    with promoted_from_trans [OF promoted_from_activate [OF 4(2,3)] Cons] show ?thesis by simp
  qed (simp_all add: Cons)
qed simp

lemma promoted_from_fold:
  assumes "distinct ks" and "\<forall>k \<in> set ks. \<exists>s. mget sims k = Some s \<and> sim_State s = SIMDormant"
  shows "promoted_from sims (fold (\<lambda>k. mmod k activate) ks sims)"
  using assms
proof (induction ks arbitrary: sims)
  case (Cons k ks)
  obtain s where s: "mget sims k = Some s" "sim_State s = SIMDormant" using Cons.prems(2) by auto
  have "\<forall>j \<in> set ks. \<exists>s. mget (mmod k activate sims) j = Some s \<and> sim_State s = SIMDormant"
    using Cons.prems by auto
  with Cons have "promoted_from (mmod k activate sims) (fold (\<lambda>k. mmod k activate) ks (mmod k activate sims))"
    by auto
  with promoted_from_activate [OF s] show ?case by (auto intro: promoted_from_trans)
qed simp


section \<open>Invariants\<close>

lemma promoted_from_mwf: "promoted_from sims sims' \<Longrightarrow> mwf sims' \<longleftrightarrow> mwf sims"
  by (simp add: promoted_from_def mwf_def)

text \<open>A new SIM map in which every SIM keeps its identity and its session keeps the pool invariant.\<close>

lemma pool_inv_sims:
  assumes "pool_inv p" and "mwf sims"
    and "\<And>i. map_option (\<lambda>s. (sim_IMSI s, sim_CurrentSession s)) (mget sims i) =
      map_option (\<lambda>s. (sim_IMSI s, sim_CurrentSession s)) (mget (po_sims p) i)"
  shows "pool_inv (p\<lparr>po_sims := sims\<rparr>)"
proof -
  have fwd: "\<exists>s'. mget (po_sims p) i = Some s' \<and> sim_IMSI s' = sim_IMSI s \<and> sim_CurrentSession s' = sim_CurrentSession s"
    if "mget sims i = Some s" for i s
    using assms(3) [of i] that by (cases "mget (po_sims p) i") simp_all
  have bwd: "\<exists>s'. mget sims i = Some s' \<and> sim_CurrentSession s' = sim_CurrentSession s"
    if "mget (po_sims p) i = Some s" for i s
    using assms(3) [of i] that by (cases "mget sims i") simp_all
  have e: "po_sims (p\<lparr>po_sims := sims\<rparr>) = sims" "po_sessions (p\<lparr>po_sims := sims\<rparr>) = po_sessions p"
    by simp_all
  show ?thesis
    unfolding pool_inv_def e
  proof (intro conjI allI impI)
    show "mwf sims" "mwf (po_sessions p)" "mget (po_sessions p) [] = None"
      using assms(2) pool_invD(2,4) [OF assms(1)] by simp_all
  next
    fix k s assume "mget sims k = Some s"
    with fwd pool_invD(3) [OF assms(1)] show "sim_IMSI s = k" by metis
  next
    fix t i assume "mget (po_sessions p) t = Some i"
    with bwd pool_invD(5) [OF assms(1)] show "\<exists>s. mget sims i = Some s \<and> sim_CurrentSession s = t" by metis
  next
    fix i s assume "mget sims i = Some s \<and> sim_CurrentSession s \<noteq> []"
    with fwd pool_invD(6) [OF assms(1)] show "mget (po_sessions p) (sim_CurrentSession s) = Some i" by metis
  qed
qed

text \<open>The same for the part of the invariant that holds for all clients.\<close>

lemma pool_sound_sims:
  assumes "pool_sound p" and "mwf sims"
    and "\<And>i. map_option (\<lambda>s. (sim_IMSI s, sim_CurrentSession s)) (mget sims i) =
      map_option (\<lambda>s. (sim_IMSI s, sim_CurrentSession s)) (mget (po_sims p) i)"
  shows "pool_sound (p\<lparr>po_sims := sims\<rparr>)"
proof -
  have e: "po_sims (p\<lparr>po_sims := sims\<rparr>) = sims" "po_sessions (p\<lparr>po_sims := sims\<rparr>) = po_sessions p"
    by simp_all
  show ?thesis
    unfolding pool_sound_def e
  proof (intro conjI allI impI)
    show "mwf sims" "mwf (po_sessions p)" "mget (po_sessions p) [] = None"
      using assms(2) pool_soundD(2,4) [OF assms(1)] by simp_all
  next
    fix k s assume "mget sims k = Some s"
    with assms(3) [of k] obtain s' where "mget (po_sims p) k = Some s'" "sim_IMSI s' = sim_IMSI s"
      by (cases "mget (po_sims p) k") simp_all
    with pool_soundD(3) [OF assms(1)] show "sim_IMSI s = k" by metis
  next
    fix t i assume "mget (po_sessions p) t = Some i"
    with pool_soundD(5) [OF assms(1)] obtain s' where "mget (po_sims p) i = Some s'" "sim_CurrentSession s' = t"
      by blast
    with assms(3) [of i] show "\<exists>s. mget sims i = Some s \<and> sim_CurrentSession s = t"
      by (cases "mget sims i") simp_all
  qed
qed

lemma promoted_from_sessions:
  assumes "promoted_from sims sims'"
  shows "map_option (\<lambda>s. (sim_IMSI s, sim_CurrentSession s)) (mget sims' i) =
      map_option (\<lambda>s. (sim_IMSI s, sim_CurrentSession s)) (mget sims i)"
proof -
  consider "mget sims' i = mget sims i"
    | s where "mget sims i = Some s" "mget sims' i = Some (activate s)"
    using assms unfolding promoted_from_def by blast
  then show ?thesis by cases simp_all
qed

lemma pool_inv_promoted:
  assumes "pool_inv p" and "promoted_from (po_sims p) sims"
  shows "pool_inv (p\<lparr>po_sims := sims\<rparr>)"
proof (rule pool_inv_sims [OF assms(1)])
  show "mwf sims" using pool_invD(1) [OF assms(1)] promoted_from_mwf [OF assms(2)] by simp
qed (rule promoted_from_sessions [OF assms(2)])

lemma pool_sound_promoted:
  assumes "pool_sound p" and "promoted_from (po_sims p) sims"
  shows "pool_sound (p\<lparr>po_sims := sims\<rparr>)"
proof (rule pool_sound_sims [OF assms(1)])
  show "mwf sims" using pool_soundD(1) [OF assms(1)] promoted_from_mwf [OF assms(2)] by simp
qed (rule promoted_from_sessions [OF assms(2)])

lemma pool_sound_initActiveSubset: "pool_sound p \<Longrightarrow> pool_sound (initActiveSubset ord p)"
  unfolding initActiveSubset_def by (erule pool_sound_promoted) (rule promoted_from_promote_until)

lemma pool_inv_initActiveSubset: "pool_inv p \<Longrightarrow> pool_inv (initActiveSubset ord p)"
  unfolding initActiveSubset_def by (erule pool_inv_promoted) (rule promoted_from_promote_until)

text \<open>What the drain goroutine does to one SIM.\<close>

definition retire :: "SIM \<Rightarrow> SIM" where
  "retire s = (if sim_CurrentSession s = [] then s\<lparr>sim_State := SIMDormant\<rparr> else s)"

lemma retire_facts [simp]:
  "retire (retire s) = retire s" "sim_CurrentSession (retire s) = sim_CurrentSession s"
  "sim_IMSI (retire s) = sim_IMSI s"
  by (simp_all add: retire_def)

lemma mget_drain:
  "mget (po_sims (drain ks p)) i =
     (if i \<in> set ks then map_option retire (mget (po_sims p) i) else mget (po_sims p) i)"
proof -
  have one: "mget (drain_one k sims) j = (if j = k then map_option retire (mget sims j) else mget sims j)" for k sims j
    by (simp add: drain_one_def retire_def split: option.split)
  have "mget (fold drain_one ks sims) i =
      (if i \<in> set ks then map_option retire (mget sims i) else mget sims i)" for sims
    by (induction ks arbitrary: sims) (simp_all add: one option.map_comp comp_def)
  then show ?thesis by (simp add: drain_def)
qed

lemma mkeys_drain: "mkeys (po_sims (drain ks p)) = mkeys (po_sims p)"
proof -
  have "mkeys (fold drain_one ks sims) = mkeys sims" for sims
    by (induction ks arbitrary: sims) (simp_all add: drain_one_def split: option.split)
  then show ?thesis by (simp add: drain_def)
qed

lemma drain_sessions:
  "map_option (\<lambda>s. (sim_IMSI s, sim_CurrentSession s)) (mget (po_sims (drain ks p)) i) =
   map_option (\<lambda>s. (sim_IMSI s, sim_CurrentSession s)) (mget (po_sims p) i)"
  by (cases "mget (po_sims p) i") (simp_all add: mget_drain)

lemma mwf_drain: "mwf (po_sims (drain ks p)) \<longleftrightarrow> mwf (po_sims p)"
  using mkeys_drain [of ks p] by (simp add: mwf_def)

lemma drain_update: "p\<lparr>po_sims := po_sims (drain ks p)\<rparr> = drain ks p"
  by (simp add: drain_def)

lemma pool_inv_drain:
  assumes "pool_inv p"
  shows "pool_inv (drain ks p)"
  using pool_inv_sims [OF assms _ drain_sessions, of ks] pool_invD(1) [OF assms]
  by (simp only: mwf_drain drain_update)

lemma pool_sound_drain:
  assumes "pool_sound p"
  shows "pool_sound (drain ks p)"
  using pool_sound_sims [OF assms _ drain_sessions, of ks] pool_soundD(1) [OF assms]
  by (simp only: mwf_drain drain_update)

section \<open>The effect of a rotation\<close>

lemma replaceCount_bounds:
  assumes "rand_Int_ok rd" and "0 \<le> a"
  shows "1 \<le> replaceCount rd a" and "replaceCount rd a \<le> max 1 (a div 2 - 1)"
proof -
  define m where "m = (if a div 2 < 1 then 1 else a div 2)"
  have m: "0 < m" by (simp add: m_def)
  have "1 \<le> replaceCount rd a \<and> replaceCount rd a \<le> max 1 (m - 1)"
  proof (cases "rd m")
    case (Inl e)
    with m show ?thesis by (simp add: replaceCount_def pool_randomInt_def m_def Let_def)
  next
    case (Inr v)
    then have "0 \<le> v \<and> v < m" using assms(1) m by (simp add: rand_Int_ok_def)
    moreover have "replaceCount rd a = (if v = 0 then 1 else v)"
      using m Inr by (simp add: replaceCount_def pool_randomInt_def Let_def m_def [symmetric])
    ultimately show ?thesis by auto
  qed
  then show "1 \<le> replaceCount rd a" "replaceCount rd a \<le> max 1 (a div 2 - 1)"
    by (simp_all add: m_def split: if_splits)
qed

lemma pool_rotate_facts:
  assumes "pool_sound p" and "rand_Int_ok rd"
    and "range_order (po_sims p) o1" and "range_order (po_sims p) o2" and "range_order (po_sims p) o3"
    and "pool_rotate rd o1 o2 o3 now p = (p', ret)"
  defines "A \<equiv> int (n_active (po_sims p))" and "D \<equiv> int (n_dormant (po_sims p))"
  defines "k \<equiv> min D (replaceCount rd A)"
  shows "promoted_from (po_sims p) (po_sims p')" and "po_sessions p' = po_sessions p" and "po_lastRotation p' = now"
    and "int (n_active (po_sims p')) = max (A + k) (min (targetCount p) (A + D))"
    and "distinct ret" and "int (length ret) \<le> k"
    and "\<And>i. i \<in> set ret \<Longrightarrow> \<exists>s. mget (po_sims p) i = Some s \<and> isRetirementCandidate (po_lastRotation p) s"
proof -
  define sims where "sims = po_sims p"
  define tp where "tp = collect isDormantCandidate sims (replaceCount rd A) o1 []"
  define s1 where "s1 = fold (\<lambda>k. mmod k activate) tp sims"
  define s2 where "s2 = (if int (n_active s1) < targetCount p
    then fst (promote_until (targetCount p) o3 s1 (int (n_active s1))) else s1)"
  have wf: "mwf sims" and d: "distinct o1" "distinct o2" "distinct o3"
    using assms(1,3-5) by (simp_all add: sims_def pool_soundD(1) range_order_def)
  have res: "p' = p\<lparr>po_sims := s2, po_lastRotation := now\<rparr>"
    "ret = collect (isRetirementCandidate (po_lastRotation p)) sims (int (length tp)) o2 []"
    using assms(6) unfolding pool_rotate_def Let_def s2_def s1_def tp_def sims_def A_def by (metis prod.inject)+
  have dc: "isDormantCandidate = (\<lambda>s. sim_State s = SIMDormant)" by (simp add: isDormantCandidate_def fun_eq_iff)
  have tp: "distinct tp" "\<forall>i \<in> set tp. \<exists>s. mget sims i = Some s \<and> sim_State s = SIMDormant"
    using d(1) collect_mem unfolding tp_def dc by (blast intro: distinct_collect)+
  have "length (range_keys isDormantCandidate sims o1) = n_dormant sims"
    using length_range_keys [OF _ wf, of o1 isDormantCandidate] assms(3) by (simp add: sims_def dc)
  moreover have "1 \<le> replaceCount rd A" using replaceCount_bounds(1) [OF assms(2)] by (simp add: A_def)
  ultimately have len: "int (length tp) = k"
    by (auto simp: tp_def collect_take k_def D_def sims_def min_def)
  have s1: "int (n_active s1) = A + k" "int (n_dormant s1) = D - k"
    using fold_activate_counts [OF tp] len by (simp_all add: s1_def A_def D_def sims_def)
  have pf1: "promoted_from sims s1" unfolding s1_def using tp by (rule promoted_from_fold)
  then show "promoted_from (po_sims p) (po_sims p')"
    using promoted_from_trans [OF pf1 promoted_from_promote_until] by (simp add: res(1) s2_def sims_def)
  show "po_sessions p' = po_sessions p" "po_lastRotation p' = now" by (simp_all add: res(1))
  have ro3: "range_order s1 o3" "mwf s1"
    using pf1 assms(5) wf by (auto simp: promoted_from_def range_order_def sims_def mwf_def)
  have n3: "int (length (range_keys isDormantCandidate s1 o3)) = D - k"
    using length_range_keys [OF ro3, of isDormantCandidate] s1(2) by (simp add: dc)
  have "int (n_active s2) = max (A + k) (min (targetCount p) (A + D))"
    using promote_until_counts [OF d(3), of "targetCount p" s1 "A + k"] s1 n3
    by (auto simp: s2_def)
  then show "int (n_active (po_sims p')) = max (A + k) (min (targetCount p) (A + D))"
    by (simp add: res(1))
  show "distinct ret" using d(2) by (simp add: res(2) distinct_collect)
  show "int (length ret) \<le> k" by (simp add: res(2) collect_take len [symmetric])
  show "\<And>i. i \<in> set ret \<Longrightarrow> \<exists>s. mget (po_sims p) i = Some s \<and> isRetirementCandidate (po_lastRotation p) s"
    using collect_mem unfolding res(2) sims_def by fast
qed

lemma pool_rotate_update:
  assumes "pool_sound p" and "rand_Int_ok rd"
    and "range_order (po_sims p) o1" and "range_order (po_sims p) o2" and "range_order (po_sims p) o3"
    and "pool_rotate rd o1 o2 o3 now p = (p', ret)"
  shows "p' = p\<lparr>po_sims := po_sims p', po_lastRotation := now\<rparr>"
  using pool_rotate_facts(2,3) [OF assms] by (cases p, cases p') simp

lemma pool_sound_rotate:
  assumes "pool_sound p" and "rand_Int_ok rd"
    and "range_order (po_sims p) o1" and "range_order (po_sims p) o2" and "range_order (po_sims p) o3"
    and "pool_rotate rd o1 o2 o3 now p = (p', ret)"
  shows "pool_sound p'"
proof -
  have "pool_sound (p\<lparr>po_sims := po_sims p'\<rparr>\<lparr>po_lastRotation := now\<rparr>)"
    using pool_sound_promoted [OF assms(1) pool_rotate_facts(1) [OF assms]] by (simp add: pool_sound_def)
  with pool_rotate_update [OF assms] show ?thesis by simp
qed

lemma pool_inv_rotate:
  assumes "pool_inv p" and "rand_Int_ok rd"
    and "range_order (po_sims p) o1" and "range_order (po_sims p) o2" and "range_order (po_sims p) o3"
    and "pool_rotate rd o1 o2 o3 now p = (p', ret)"
  shows "pool_inv p'"
proof -
  note s = pool_inv_sound [OF assms(1)]
  have "pool_inv (p\<lparr>po_sims := po_sims p'\<rparr>\<lparr>po_lastRotation := now\<rparr>)"
    using pool_inv_promoted [OF assms(1) pool_rotate_facts(1) [OF s assms(2-6)]] by simp
  with pool_rotate_update [OF s assms(2-6)] show ?thesis by simp
qed


section \<open>The target size in integers\<close>

lemma round64_Fin:
  assumes "0 < m" and "nbits (nat m) = k + 53" and "-1074 \<le> e" and "2 * int k + e \<le> 900"
  shows "round64 m e = Fin (int (rne (nat m) k)) (e + int k)"
proof -
  have k: "nat (max (int (nbits (nat \<bar>m\<bar>)) - 53) (- 1074 - e)) = k"
    using assms by simp
  have "nat m < 2 ^ nbits (nat m)" by (rule nbits_upper)
  moreover have "(1::nat) \<le> 2 ^ nbits (nat m)" by simp
  ultimately have "rne (nat m) k < 2 ^ nbits (nat m) + 2 ^ nbits (nat m)"
    using rne_le [of "nat m" k] by linarith
  then have "rne (nat m) k < 2 ^ (nbits (nat m) + 1)" by simp
  then have "nbits (rne (nat m) k) \<le> k + 54" using nbits_le assms(2) by fastforce
  then have "\<not> int (nbits (rne (nat m) k)) + (e + int k) > 1024" using assms(4) by simp
  then show ?thesis
    using assms(1) unfolding round64_def Let_def k by simp
qed

lemma rne_err_int:
  assumes "k \<le> 32"
  shows "\<bar>int (rne a k) * 2 ^ k - int a\<bar> \<le> 2 ^ 32"
proof (cases "k = 0")
  case False
  have "int (rne a k * 2 ^ k) \<le> int (a + 2 ^ (k - 1))" "int a \<le> int (rne a k * 2 ^ k + 2 ^ (k - 1))"
    using rne_error [of k a] False by (simp_all only: of_nat_le_iff)
  moreover have "(2::int) ^ (k - 1) \<le> 2 ^ 32" using assms by (intro power_increasing) simp_all
  ultimately show ?thesis by simp
qed (simp add: rne_def)

lemma f64_to_int_neg:
  assumes "k \<le> 54" and "int q * 2 ^ k < 2 ^ 86"
  shows "f64_to_int (Fin (int q) (int k - 54)) = int q * 2 ^ k div 2 ^ 54"
proof -
  have "(2::int) ^ 54 = 2 ^ (54 - k) * 2 ^ k" using assms(1) by (simp flip: power_add)
  then have div: "int q * 2 ^ k div 2 ^ 54 = int q div 2 ^ (54 - k)"
    by (simp only: div_mult_mult2 [of "2 ^ k"] power_not_zero zero_neq_numeral not_False_eq_True)
  have "int q * 2 ^ k div 2 ^ 54 < 2 ^ 32" using assms(2) by (simp add: div_less_iff_less_mult)
  moreover have "0 \<le> int q * 2 ^ k div 2 ^ 54" by (rule pos_imp_zdiv_nonneg_iff [THEN iffD2]) simp_all
  ultimately have "in_int64 (int q div 2 ^ (54 - k))" unfolding div by (simp add: in_int64_def)
  moreover have "nat (54 - int k) = 54 - k" by simp
  ultimately show ?thesis using assms(1) unfolding div by (auto simp: Let_def sgn_if)
qed

abbreviation ratio_mant :: int where "ratio_mant \<equiv> 6305039478318694"

text \<open>The product of the pool size and the ratio, up to the rounding of the multiplication.\<close>

lemma ratio_product:
  assumes "0 < n" and "n < 2 ^ 32"
  shows "\<exists>v. f64_to_int (f64_mul (f64_of_int n) targetActiveRatio) = v div 2 ^ 54
    \<and> \<bar>v - n * ratio_mant\<bar> \<le> 2 ^ 32"
proof -
  define a where "a = nat (n * ratio_mant)"
  define k where "k = nbits a - 53"
  have mul: "f64_mul (f64_of_int n) targetActiveRatio = round64 (n * ratio_mant) (- 54)"
    using assms by (simp add: f64_of_int_def targetActiveRatio_def)
  have "n * ratio_mant < 2 ^ 32 * 2 ^ 53" using assms by (intro mult_strict_mono) simp_all
  then have "a < 2 ^ 85" using assms by (simp add: a_def)
  then have "nbits a \<le> 85" by (rule nbits_le)
  moreover have "53 \<le> nbits a"
  proof (rule ccontr)
    assume "\<not> 53 \<le> nbits a"
    then have "a < 2 ^ 52" using nbits_upper [of a] power_increasing [of "nbits a" 52 "2::nat"] by simp
    moreover have "2 ^ 52 \<le> n * ratio_mant" using mult_mono [of 1 n "2 ^ 52" ratio_mant] assms by simp
    ultimately show False by (simp add: a_def nat_less_iff)
  qed
  ultimately have k: "int (nbits a) = int k + 53" "k \<le> 32" by (simp_all add: k_def)
  have pos: "0 < n * ratio_mant" using assms by simp
  then have aa: "nat \<bar>n * ratio_mant\<bar> = a" by (simp add: a_def)
  have "round64 (n * ratio_mant) (- 54) = Fin (int (rne a k)) (int k - 54)"
    using round64_Fin [OF pos, of k "- 54"] k unfolding a_def [symmetric] by simp
  moreover have err: "\<bar>int (rne a k) * 2 ^ k - n * ratio_mant\<bar> \<le> 2 ^ 32"
    using rne_err_int [of k a] k(2) pos by (simp add: a_def)
  moreover have "f64_to_int (Fin (int (rne a k)) (int k - 54)) = int (rne a k) * 2 ^ k div 2 ^ 54"
  proof (rule f64_to_int_neg)
    show "k \<le> 54" using k(2) by simp
    have "n * ratio_mant < 2 ^ 32 * 2 ^ 53" using assms by (intro mult_strict_mono) simp_all
    with err show "int (rne a k) * 2 ^ k < 2 ^ 86" by simp
  qed
  ultimately show ?thesis using mul by metis
qed


text \<open>The target in integers: 7/20 of the pool, rounded down; when that is a whole number, the
  error of the binary ratio can lose one.\<close>

lemma ratio_floor:
  assumes "0 \<le> n" and "n < 2 ^ 32"
  defines "t \<equiv> f64_to_int (f64_mul (f64_of_int n) targetActiveRatio)"
  shows "t = 7 * n div 20 \<or> (20 dvd n \<and> t = 7 * n div 20 - 1)"
proof (cases "n = 0")
  case True
  have "nbits 0 = 0" by (simp add: nbits.simps)
  then show ?thesis
    by (simp add: t_def True f64_of_int_def targetActiveRatio_def round64_def rne_def in_int64_def)
next
  case False
  with assms obtain v where v: "t = v div 2 ^ 54" "\<bar>v - n * ratio_mant\<bar> \<le> 2 ^ 32"
    using ratio_product [of n] by (auto simp: t_def)
  define q r where "q = 7 * n div 20" and "r = 7 * n mod 20"
  have qr: "7 * n = 20 * q + r" "0 \<le> r" "r < 20" by (simp_all add: q_def r_def)
  have prod: "20 * (n * ratio_mant) = (20 * q + r) * 2 ^ 54 - 8 * n" unfolding qr(1) [symmetric] by simp
  have up: "v < (q + 1) * 2 ^ 54" using v(2) prod qr assms(1,2) by (simp add: abs_le_iff)
  show ?thesis
  proof (cases "r = 0")
    case True
    then have "20 dvd 7 * n" by (simp add: r_def mod_eq_0_iff_dvd)
    then have "20 dvd n" by presburger
    moreover have "(q - 1) * 2 ^ 54 \<le> v" using v(2) prod True assms(2) by (simp add: abs_le_iff)
    ultimately show ?thesis using up v(1) q_def by (auto simp: q_def)
  next
    case False
    then have "q * 2 ^ 54 \<le> v" using v(2) prod qr assms(2) by (simp add: abs_le_iff)
    with up have "v div 2 ^ 54 = q" by simp
    then show ?thesis by (simp add: v(1) q_def)
  qed
qed


section \<open>Example pool\<close>

text \<open>Four active SIMs, two dormant ones, nobody used since the last rotation.\<close>

definition ex_rpool :: pool where
  "ex_rpool = \<lparr>po_sims = map (\<lambda>(k, st). (k, ex_sim k st))
     [(''1'', SIMActive), (''2'', SIMActive), (''3'', SIMActive), (''4'', SIMActive), (''5'', SIMDormant),
      (''6'', SIMDormant)], po_lastRotation = 5, po_sessions = []\<rparr>"

definition ex_order :: "string list" where
  "ex_order = [''1'', ''2'', ''3'', ''4'', ''5'', ''6'']"

lemma ex_rpool_facts [simp]:
  "pool_sound ex_rpool" "range_order (po_sims ex_rpool) ex_order"
  by (auto simp: pool_sound_def ex_rpool_def ex_order_def mwf_def ex_sim_def range_order_def)

lemma ex_rpool_counts: "n_active (po_sims ex_rpool) = 4" "n_dormant (po_sims ex_rpool) = 2"
  by (simp_all add: ex_rpool_def mcount_def ex_sim_def)

lemma ex_rpool_target: "targetCount ex_rpool = 4"
  using ratio_floor [of 6] by (auto simp: targetCount_def ex_rpool_def minActiveCount_def Let_def)

lemma ex_rpool_rotate:
  "snd (pool_rotate first_choice ex_order ex_order ex_order 9 ex_rpool) = [''1'']"
  by (simp add: pool_rotate_def Let_def ex_rpool_def ex_order_def mcount_def ex_sim_def replaceCount_def
      pool_randomInt_def first_choice_def isDormantCandidate_def isRetirementCandidate_def)

section \<open>Properties\<close>

text \<open>C9. A rotation promotes \<open>k\<close> dormant SIMs, the smaller of their number and the replacement count,
  and then more until the target is met or no SIM is dormant.  It never deactivates a SIM, and it
  schedules at most \<open>k\<close> different SIMs for retirement, each active, idle and unused since the
  previous rotation.\<close>

theorem rotate_counts:
  assumes "pool_sound p" and "rand_Int_ok rd"
    and "range_order (po_sims p) o1" and "range_order (po_sims p) o2" and "range_order (po_sims p) o3"
    and "pool_rotate rd o1 o2 o3 now p = (p', ret)"
  shows "let A = int (n_active (po_sims p)); D = int (n_dormant (po_sims p)); k = min D (replaceCount rd A) in
      int (n_active (po_sims p')) = max (A + k) (min (targetCount p) (A + D))
      \<and> promoted_from (po_sims p) (po_sims p') \<and> po_sessions p' = po_sessions p
      \<and> distinct ret \<and> int (length ret) \<le> k
      \<and> (\<forall>i \<in> set ret. \<exists>s. mget (po_sims p) i = Some s \<and> sim_State s = SIMActive
            \<and> sim_CurrentSession s = [] \<and> sim_LastActive s \<le> po_lastRotation p)"
proof -
  note f = pool_rotate_facts [OF assms]
  have "\<exists>s. mget (po_sims p) i = Some s \<and> sim_State s = SIMActive \<and> sim_CurrentSession s = []
      \<and> sim_LastActive s \<le> po_lastRotation p" if "i \<in> set ret" for i
    using f(7) [OF that] by (auto simp: isRetirementCandidate_def split: if_splits)
  with f show ?thesis by (simp add: Let_def)
qed

theorem rotate_counts_witness:
  "n_active (po_sims (fst (pool_rotate first_choice ex_order ex_order ex_order 9 ex_rpool))) = 5
    \<and> snd (pool_rotate first_choice ex_order ex_order ex_order 9 ex_rpool) = [''1'']"
proof -
  have "replaceCount first_choice 4 = 1"
    by (simp add: replaceCount_def pool_randomInt_def first_choice_def Let_def)
  then show ?thesis
    using rotate_counts [of ex_rpool first_choice ex_order ex_order ex_order 9, OF _ _ _ _ _ surjective_pairing]
      ex_rpool_rotate by (simp add: ex_rpool_counts ex_rpool_target Let_def)
qed




text \<open>A SIM that fails its liveness check during the drain window comes back: the goroutine makes
  it dormant, hence a candidate for promotion, although it was marked unavailable.\<close>

theorem drain_resurrects_unavailable:
  assumes "mget (po_sims p) i = Some s" and "sim_CurrentSession s = []" and "i \<in> set ret"
  shows "map_option sim_State (mget (po_sims (markUnavailable i p)) i) = Some SIMUnavailable
    \<and> (\<exists>s'. mget (po_sims (drain ret (markUnavailable i p))) i = Some s' \<and> isDormantCandidate s'
        \<and> sim_FailCount s' = wrap64 (sim_FailCount s + 1))"
  using assms by (simp add: markUnavailable_def mget_drain retire_def isDormantCandidate_def)

theorem drain_resurrects_unavailable_witness:
  "\<exists>s'. mget (po_sims (drain [''1''] (markUnavailable ''1'' ex_rpool))) ''1'' = Some s' \<and> isDormantCandidate s'
    \<and> sim_FailCount s' = 1"
  using drain_resurrects_unavailable [of ex_rpool "''1''" "ex_sim ''1'' SIMActive" "[''1'']"]
  by (simp add: ex_rpool_def ex_sim_def in_int64_def)

text \<open>The replacement count is positive and, with at least four active SIMs, smaller than half of
  them: the upper end of the documented range, half of the active SIMs, is never drawn.\<close>

theorem replaceCount_range:
  assumes "rand_Int_ok rd" and "4 \<le> a"
  shows "1 \<le> replaceCount rd a \<and> replaceCount rd a < a div 2"
  using replaceCount_bounds [OF assms(1), of a] assms(2) by linarith

theorem replaceCount_range_witness:
  "1 \<le> replaceCount first_choice 10 \<and> replaceCount first_choice 10 < 5"
  using replaceCount_range [of first_choice 10] by simp

text \<open>C26. The target is 35 percent of the pool rounded down, and at least four.  For pools whose size is a
  multiple of 20 the floating-point ratio can give one less; for 180 SIMs it does.\<close>

theorem targetCount_value:
  assumes "length (po_sims p) < 2 ^ 32"
  shows "let n = int (length (po_sims p)) in
    targetCount p = max 4 (7 * n div 20) \<or> (20 dvd n \<and> targetCount p = max 4 (7 * n div 20 - 1))"
proof -
  have "int (length (po_sims p)) < 2 ^ 32" using assms by simp
  then show ?thesis
    using ratio_floor [of "int (length (po_sims p))"]
    by (auto simp: targetCount_def Let_def minActiveCount_def max_def)
qed


text \<open>A pool of 180 SIMs: 35 percent of it are 63, the computed target is 62.\<close>

definition pool_180 :: pool where
  "pool_180 = \<lparr>po_sims = map (\<lambda>i. (replicate i CHR ''1'', ex_sim (replicate i CHR ''1'') SIMDormant)) [0..<180],
     po_lastRotation = 0, po_sessions = []\<rparr>"

theorem targetCount_value_witness:
  "targetCount pool_180 = 62 \<and> 7 * 180 div 20 = (63::int)"
proof -
  have n: "length (po_sims pool_180) = 180" by (simp add: pool_180_def)
  have "nbits 1134907106097364920 = 60" by (simp add: nbits.simps)
  then have "round64 1134907106097364920 (- 54) = Fin (int (rne 1134907106097364920 7)) (- 47)"
    using round64_Fin [of 1134907106097364920 7 "- 54"] by simp
  moreover have "rne 1134907106097364920 7 = 8866461766385663" by (simp add: rne_def)
  ultimately have "f64_to_int (f64_mul (f64_of_int 180) targetActiveRatio) = 62"
    by (simp add: f64_of_int_def targetActiveRatio_def in_int64_def)
  then have "targetCount pool_180 \<noteq> 63" by (simp add: targetCount_def n Let_def minActiveCount_def)
  with targetCount_value [of pool_180] show ?thesis by (simp add: n)
qed

end
