(* ===== verification/Sim_Liveness.thy ===== *)
theory Sim_Liveness
  imports Sim_Rotation
begin

text \<open>
  \<^verbatim>\<open>camo-simpool/liveness.go\<close>: the checks of active and dormant SIMs and the back-off for SIMs
  that do not answer.  The pool's lock is held for each single write only, so the passes are
  built from one step per SIM; other goroutines may run between two of these steps.
\<close>

section \<open>Intervals and back-off\<close>

definition activeLivenessInterval :: duration where "activeLivenessInterval = 60 * second"

definition dormantLivenessInterval :: duration where "dormantLivenessInterval = 3600 * second"

definition maxBackoffInterval :: duration where "maxBackoffInterval = 4 * 3600 * second"

text \<open>The loop, counting down the remaining rounds.\<close>

fun backoff_loop :: "nat \<Rightarrow> duration \<Rightarrow> duration" where
  "backoff_loop 0 d = d"
| "backoff_loop (Suc n) d =
     (let d' = wrap64 (d * 2) in if d' > maxBackoffInterval then maxBackoffInterval else backoff_loop n d')"

definition backoffDuration :: "int \<Rightarrow> duration" where
  "backoffDuration failCount =
     (if failCount \<le> 0 then dormantLivenessInterval else backoff_loop (nat failCount) dormantLivenessInterval)"

section \<open>Checking SIMs\<close>

text \<open>
  \<^verbatim>\<open>SIMChecker\<close> is an interface.  In one pass every SIM is checked at most once, so the outcomes
  of a pass are a function of the IMSI.
\<close>

type_synonym SIMChecker = "string \<Rightarrow> goerr option"

definition noopChecker_Check :: SIMChecker where
  "noopChecker_Check imsi = None"

definition check_active_one :: "SIMChecker \<Rightarrow> instant \<Rightarrow> string \<Rightarrow> pool \<Rightarrow> pool" where
  "check_active_one checker now imsi p =
     (case mget (po_sims p) imsi of
        None \<Rightarrow> p
      | Some sim \<Rightarrow>
          if sim_State sim \<noteq> SIMActive then p
          else (case checker (sim_IMSI sim) of
              Some err \<Rightarrow> markUnavailable (sim_IMSI sim) p
            | None \<Rightarrow> p\<lparr>po_sims := mmod imsi (\<lambda>s. s\<lparr>sim_LastHealthCheck := now\<rparr>) (po_sims p)\<rparr>))"

definition checkActive :: "SIMChecker \<Rightarrow> (string \<Rightarrow> instant) \<Rightarrow> string list \<Rightarrow> pool \<Rightarrow> pool" where
  "checkActive checker clock ord p =
     fold (\<lambda>imsi. check_active_one checker (clock imsi) imsi) (allSIMs ord p) p"

text \<open>\<open>since\<close> is the time at which the back-off is evaluated, \<open>now\<close> the time that is recorded.\<close>

definition check_dormant_one :: "SIMChecker \<Rightarrow> instant \<Rightarrow> instant \<Rightarrow> string \<Rightarrow> pool \<Rightarrow> pool" where
  "check_dormant_one checker since now imsi p =
     (case mget (po_sims p) imsi of
        None \<Rightarrow> p
      | Some sim \<Rightarrow>
          (case sim_State sim of
             SIMDormant \<Rightarrow>
               (case checker (sim_IMSI sim) of
                  Some err \<Rightarrow> markUnavailable (sim_IMSI sim) p
                | None \<Rightarrow> p\<lparr>po_sims := mmod imsi (\<lambda>s. s\<lparr>sim_LastHealthCheck := now\<rparr>) (po_sims p)\<rparr>)
           | SIMUnavailable \<Rightarrow>
               if time_Sub since (sim_LastHealthCheck sim) < backoffDuration (sim_FailCount sim) then p
               else (case checker (sim_IMSI sim) of
                  None \<Rightarrow> markDormant (sim_IMSI sim) p
                | Some err \<Rightarrow> markUnavailable (sim_IMSI sim)
                    (p\<lparr>po_sims := mmod imsi (\<lambda>s. s\<lparr>sim_LastHealthCheck := now\<rparr>) (po_sims p)\<rparr>))
           | SIMActive \<Rightarrow> p))"


section \<open>Interrupted checks\<close>

text \<open>
  The monitor reads a SIM and asks the checker without the pool's lock; only the marks it then
  sets are critical sections, and other goroutines may run in between.  The marks a check
  leads to, and setting one of them:
\<close>

datatype mark = Unavailable string | Recovered string | Stamped string instant

primrec apply_mark :: "mark \<Rightarrow> pool \<Rightarrow> pool" where
  "apply_mark (Unavailable imsi) p = markUnavailable imsi p"
| "apply_mark (Recovered imsi) p = markDormant imsi p"
| "apply_mark (Stamped imsi now) p = p\<lparr>po_sims := mmod imsi (\<lambda>s. s\<lparr>sim_LastHealthCheck := now\<rparr>) (po_sims p)\<rparr>"

definition active_marks :: "SIMChecker \<Rightarrow> instant \<Rightarrow> string \<Rightarrow> SIM \<Rightarrow> mark list" where
  "active_marks checker now imsi sim =
     (if sim_State sim \<noteq> SIMActive then []
      else case checker (sim_IMSI sim) of
        Some err \<Rightarrow> [Unavailable (sim_IMSI sim)]
      | None \<Rightarrow> [Stamped imsi now])"

definition dormant_marks :: "SIMChecker \<Rightarrow> instant \<Rightarrow> instant \<Rightarrow> string \<Rightarrow> SIM \<Rightarrow> mark list" where
  "dormant_marks checker since now imsi sim =
     (case sim_State sim of
        SIMDormant \<Rightarrow>
          (case checker (sim_IMSI sim) of
             Some err \<Rightarrow> [Unavailable (sim_IMSI sim)]
           | None \<Rightarrow> [Stamped imsi now])
      | SIMUnavailable \<Rightarrow>
          if time_Sub since (sim_LastHealthCheck sim) < backoffDuration (sim_FailCount sim) then []
          else (case checker (sim_IMSI sim) of
             None \<Rightarrow> [Recovered (sim_IMSI sim)]
           | Some err \<Rightarrow> [Stamped imsi now, Unavailable (sim_IMSI sim)])
      | SIMActive \<Rightarrow> [])"

text \<open>A check that is not interrupted is the one of the passes above.\<close>

lemma check_active_marks:
  "mget (po_sims p) imsi = Some sim \<Longrightarrow>
   check_active_one checker now imsi p = fold apply_mark (active_marks checker now imsi sim) p"
  by (simp add: check_active_one_def active_marks_def split: option.split)

lemma check_dormant_marks:
  "mget (po_sims p) imsi = Some sim \<Longrightarrow>
   check_dormant_one checker since now imsi p = fold apply_mark (dormant_marks checker since now imsi sim) p"
  by (simp add: check_dormant_one_def dormant_marks_def split: option.split SIMState.split)

lemma pool_sound_neutral:
  assumes "pool_sound p" and "session_neutral f"
  shows "pool_sound (p\<lparr>po_sims := mmod k f (po_sims p)\<rparr>)"
proof (rule pool_sound_sims [OF assms(1)])
  show "mwf (mmod k f (po_sims p))" using pool_soundD(1) [OF assms(1)] by simp
  show "map_option (\<lambda>s. (sim_IMSI s, sim_CurrentSession s)) (mget (mmod k f (po_sims p)) i) =
      map_option (\<lambda>s. (sim_IMSI s, sim_CurrentSession s)) (mget (po_sims p) i)" for i
    using assms(2) by (simp add: session_neutral_def option.map_comp comp_def)
qed

lemma pool_sound_mark: "pool_sound p \<Longrightarrow> pool_sound (apply_mark m p)"
  by (cases m) (simp_all add: markUnavailable_def markDormant_def pool_sound_neutral)

section \<open>What a pass does to each SIM\<close>

text \<open>The outcome of the checks as functions on a single SIM.\<close>

definition active_verdict :: "goerr option \<Rightarrow> instant \<Rightarrow> SIM \<Rightarrow> SIM" where
  "active_verdict res now s =
     (if sim_State s \<noteq> SIMActive then s
      else if res = None then s\<lparr>sim_LastHealthCheck := now\<rparr>
      else s\<lparr>sim_State := SIMUnavailable, sim_FailCount := wrap64 (sim_FailCount s + 1)\<rparr>)"


text \<open>
  A pass is a fold of modifications, one per key: the locale states what such a fold does to
  each entry.
\<close>

locale per_key_pass =
  fixes one :: "string \<Rightarrow> pool \<Rightarrow> pool" and verdict :: "string \<Rightarrow> SIM \<Rightarrow> SIM"
  assumes one: "pool_sound p \<Longrightarrow> one k p = p\<lparr>po_sims := mmod k (verdict k) (po_sims p)\<rparr>"
    and neutral: "session_neutral (verdict k)"
begin

lemma sound_mmod: "pool_sound p \<Longrightarrow> pool_sound (p\<lparr>po_sims := mmod k (verdict k) (po_sims p)\<rparr>)"
  by (rule pool_sound_neutral [OF _ neutral])

lemma one_sound: "pool_sound p \<Longrightarrow> pool_sound (one k p)"
  by (simp add: one sound_mmod)

lemma pass:
  assumes "pool_sound p" and "distinct ks"
  shows "pool_sound (fold one ks p)
    \<and> (\<forall>i. mget (po_sims (fold one ks p)) i =
        (if i \<in> set ks then map_option (verdict i) (mget (po_sims p) i) else mget (po_sims p) i))
    \<and> po_sessions (fold one ks p) = po_sessions p \<and> po_lastRotation (fold one ks p) = po_lastRotation p"
  using assms
proof (induction ks arbitrary: p)
  case (Cons k ks)
  have p1: "pool_sound (one k p)" "po_sessions (one k p) = po_sessions p"
    "po_lastRotation (one k p) = po_lastRotation p"
    "mget (po_sims (one k p)) i = (if i = k then map_option (verdict k) (mget (po_sims p) k) else mget (po_sims p) i)" for i
    using one_sound [OF Cons.prems(1), of k] by (simp_all add: one [OF Cons.prems(1)])
  with Cons.IH [OF p1(1)] Cons.prems(2) show ?case by simp
qed simp

end

lemma active_neutral: "session_neutral (active_verdict res now)"
  by (simp add: session_neutral_def active_verdict_def)


text \<open>Modifications of a SIM that agree on its current value have the same effect.\<close>

lemma mmod_cong: "(\<And>s. mget m k = Some s \<Longrightarrow> f s = g s) \<Longrightarrow> mmod k f m = mmod k g m"
  by (induction m) auto

lemma mmod_same: "(\<And>s. mget m k = Some s \<Longrightarrow> f s = s) \<Longrightarrow> mmod k f m = m"
  by (induction m) auto


lemma pool_sims_cong:
  "mget (po_sims p) k = Some s \<Longrightarrow> f s = g s \<Longrightarrow>
    p\<lparr>po_sims := mmod k f (po_sims p)\<rparr> = p\<lparr>po_sims := mmod k g (po_sims p)\<rparr>"
  by (metis mmod_cong option.inject)

lemma pool_sims_same: "mget (po_sims p) k = Some s \<Longrightarrow> f s = s \<Longrightarrow> p = p\<lparr>po_sims := mmod k f (po_sims p)\<rparr>"
  using mmod_same [of "po_sims p" k f] by simp

lemmas pool_sims_intros = pool_sims_cong pool_sims_same

interpretation active_pass: per_key_pass
  "\<lambda>k. check_active_one checker (clock k) k" "\<lambda>k. active_verdict (checker k) (clock k)" for checker clock
proof
  fix p k assume p: "pool_sound p"
  show "check_active_one checker (clock k) k p = p\<lparr>po_sims := mmod k (active_verdict (checker k) (clock k)) (po_sims p)\<rparr>"
  proof (cases "mget (po_sims p) k")
    case None
    then show ?thesis by (simp add: check_active_one_def)
  next
    case (Some s)
    have imsi: "sim_IMSI s = k" using Some pool_soundD(3) [OF p] by simp
    show ?thesis
      by (cases "checker k"; cases "sim_State s = SIMActive";
          simp add: check_active_one_def markUnavailable_def Some imsi;
          intro pool_sims_intros [OF Some]; simp add: active_verdict_def)
  qed
qed (rule active_neutral)




section \<open>Checkers\<close>

text \<open>What a checker that answers for a set of SIMs guarantees.\<close>

locale reliable_checker =
  fixes checker :: SIMChecker and reachable_sims :: "string set"
  assumes answers: "i \<in> reachable_sims \<Longrightarrow> checker i = None"
begin

lemma checkActive_keeps:
  assumes "pool_sound p" and "range_order (po_sims p) ord"
    and "\<And>i. mget (po_sims p) i \<noteq> None \<Longrightarrow> i \<in> reachable_sims"
  shows "n_active (po_sims (checkActive checker clock ord p)) = n_active (po_sims p)"
proof -
  have one: "n_active (mmod k (active_verdict (checker k) t) sims) = n_active sims"
    if "mget sims k \<noteq> None \<Longrightarrow> checker k = None" for sims :: "(string, SIM) gomap" and k t
  proof (cases "mget sims k")
    case (Some s)
    with that have "checker k = None" by simp
    then show ?thesis
      using mcount_mmod [OF Some, of "\<lambda>s. sim_State s = SIMActive" "active_verdict (checker k) t"]
      by (simp add: active_verdict_def split: if_splits)
  qed simp
  have "n_active (po_sims (fold (\<lambda>k. check_active_one checker (clock k) k) ks q)) = n_active (po_sims q)"
    if "pool_sound q" "\<And>i. mget (po_sims q) i \<noteq> None \<Longrightarrow> i \<in> reachable_sims" for ks q
    using that
  proof (induction ks arbitrary: q)
    case (Cons k ks)
    let ?q = "check_active_one checker (clock k) k q"
    have q: "?q = q\<lparr>po_sims := mmod k (active_verdict (checker k) (clock k)) (po_sims q)\<rparr>"
      by (rule active_pass.one [OF Cons.prems(1)])
    have "\<And>i. mget (po_sims ?q) i \<noteq> None \<Longrightarrow> i \<in> reachable_sims"
      unfolding q using Cons.prems(2) by (auto split: if_splits)
    with Cons.IH [OF active_pass.one_sound [OF Cons.prems(1)]]
    have "n_active (po_sims (fold (\<lambda>k. check_active_one checker (clock k) k) ks ?q)) = n_active (po_sims ?q)" .
    also have "\<dots> = n_active (po_sims q)"
      unfolding q using one Cons.prems(2) answers by simp
    finally show ?case by simp
  qed simp
  with assms(1,3) show ?thesis by (simp add: checkActive_def)
qed

end

interpretation noop: reliable_checker noopChecker_Check UNIV
  by unfold_locales (simp add: noopChecker_Check_def)

section \<open>Properties\<close>





text \<open>The back-off is one hour without failures, two hours after one, and the maximum of four
  hours after every further one; the loop ends after at most three rounds whatever the count.\<close>

theorem backoffDuration_value:
  "backoffDuration n = (if n \<le> 0 then 3600 else if n = 1 then 7200 else 14400) * second"
proof -
  consider "n \<le> 0" | "n = 1" | "2 \<le> n" by linarith
  then show ?thesis
  proof cases
    case 3
    have "backoff_loop (Suc (Suc m)) dormantLivenessInterval = 14400 * second" for m
      by (cases m) (simp_all add: Let_def dormantLivenessInterval_def maxBackoffInterval_def second_def in_int64_def)
    moreover have "nat n = Suc (Suc (nat (n - 2)))" using 3 by simp
    ultimately show ?thesis using 3 by (simp add: backoffDuration_def del: backoff_loop.simps)
  qed (simp_all add: backoffDuration_def Let_def dormantLivenessInterval_def maxBackoffInterval_def second_def in_int64_def)
qed

end
