(* ===== verification/Sim_Service.thy ===== *)
theory Sim_Service
  imports Sim_Liveness GoConn
begin

text \<open>
  \<^verbatim>\<open>camo-simpool/api.go\<close> and \<^verbatim>\<open>camo-simpool/main.go\<close>: the socket API, the configuration, and the
  running program as a step relation over the pool and the pending drain goroutines.
\<close>

section \<open>API\<close>

record simAPIRequest =
  sreq_Command :: string
  sreq_SessionToken :: string

record simAPIResponse =
  sresp_Status :: string
  sresp_Command :: string
  sresp_IMSI :: string
  sresp_Total :: int
  sresp_Active :: int
  sresp_Available :: int
  sresp_Message :: string

definition sim_resp0 :: simAPIResponse where
  "sim_resp0 = \<lparr>sresp_Status = [], sresp_Command = [], sresp_IMSI = [], sresp_Total = 0, sresp_Active = 0,
     sresp_Available = 0, sresp_Message = []\<rparr>"

definition simCmdAllocate :: string where "simCmdAllocate = ''allocate''"
definition simCmdRelease :: string where "simCmdRelease = ''release''"
definition simCmdStats :: string where "simCmdStats = ''stats''"

text \<open>
  One line of a connection.  \<open>line\<close> is what \<^verbatim>\<open>json.Unmarshal\<close> makes of it; the random source,
  the iteration order and the clock are those of the moment the line is handled.
\<close>

definition handle_sim_line :: "rand_int \<Rightarrow> string list \<Rightarrow> instant \<Rightarrow> goerr + simAPIRequest \<Rightarrow> pool
    \<Rightarrow> pool \<times> simAPIResponse" where
  "handle_sim_line rd ord now line p =
     (case line of
        Inl e \<Rightarrow> (p, sim_resp0\<lparr>sresp_Status := ''error'', sresp_Message := ''invalid request''\<rparr>)
      | Inr req \<Rightarrow>
          if sreq_Command req = simCmdAllocate then
            (case allocate rd ord (sreq_SessionToken req) now p of
               (p', Inl err) \<Rightarrow> (p', sim_resp0\<lparr>sresp_Status := ''error'', sresp_Command := sreq_Command req,
                                   sresp_Message := err_text err\<rparr>)
             | (p', Inr imsi) \<Rightarrow> (p', sim_resp0\<lparr>sresp_Status := ''ok'', sresp_Command := sreq_Command req,
                                   sresp_IMSI := imsi\<rparr>))
          else if sreq_Command req = simCmdRelease then
            (case release (sreq_SessionToken req) p of
               (p', Some err) \<Rightarrow> (p', sim_resp0\<lparr>sresp_Status := ''error'', sresp_Command := sreq_Command req,
                                   sresp_Message := err_text err\<rparr>)
             | (p', None) \<Rightarrow> (p', sim_resp0\<lparr>sresp_Status := ''ok'', sresp_Command := sreq_Command req\<rparr>))
          else if sreq_Command req = simCmdStats then
            (case stats p of (tot, active, available) \<Rightarrow>
               (p, sim_resp0\<lparr>sresp_Status := ''ok'', sresp_Command := sreq_Command req, sresp_Total := tot,
                     sresp_Active := active, sresp_Available := available\<rparr>))
          else (p, sim_resp0\<lparr>sresp_Status := ''error'', sresp_Message := ''unknown command''\<rparr>))"

text \<open>A connection that is served without interruption: one answer per line.\<close>

fun handleConn_sim :: "(rand_int \<times> string list \<times> instant \<times> (goerr + simAPIRequest)) list \<Rightarrow> pool
    \<Rightarrow> pool \<times> simAPIResponse list" where
  "handleConn_sim [] p = (p, [])"
| "handleConn_sim ((rd, ord, now, line) # rest) p =
     (let (p1, resp) = handle_sim_line rd ord now line p;
          (p2, resps) = handleConn_sim rest p1
      in (p2, resp # resps))"

section \<open>Configuration and start\<close>

record simConfig =
  sc_SIMRotationInterval :: int
  sc_SIMs :: "SIM list"
  sc_UseMockChecker :: bool

definition defaultSimConfig :: simConfig where
  "defaultSimConfig = \<lparr>sc_SIMRotationInterval = 480, sc_SIMs = [], sc_UseMockChecker = False\<rparr>"

definition loadSimpoolConfig :: "(bytes \<Rightarrow> simConfig \<Rightarrow> simConfig \<times> goerr option) \<Rightarrow> read_result \<Rightarrow> goerr + simConfig" where
  "loadSimpoolConfig unmarshal file =
     (case file of
        ReadNotExist e \<Rightarrow> Inl e
      | ReadError e \<Rightarrow> Inl e
      | ReadOK data \<Rightarrow>
          (case unmarshal data defaultSimConfig of
             (cfg, Some e) \<Rightarrow> Inl e
           | (cfg, None) \<Rightarrow> Inr cfg))"

text \<open>The inventory is registered SIM by SIM; each loop round has a copy of its own.\<close>

definition load_inventory :: "simConfig \<Rightarrow> instant \<Rightarrow> pool" where
  "load_inventory cfg now = fold pool_add (sc_SIMs cfg) (newPool now)"

text \<open>Both branches of \<^verbatim>\<open>main\<close> choose the checker that always succeeds.\<close>

definition select_checker :: "simConfig \<Rightarrow> SIMChecker" where
  "select_checker cfg = (if sc_UseMockChecker cfg then noopChecker_Check else noopChecker_Check)"

section \<open>The running program\<close>

text \<open>
  The pool is shared by the rotator, the liveness monitor, the API and the drain goroutines.
  The steps are the critical sections under the pool's lock.  The liveness monitor inspects SIMs
  without the lock, one at a time in any order; the marks that follow from an inspection
  (\<open>ss_marks\<close>) are set in later steps.
\<close>

record simsys =
  ss_pool :: pool
  ss_drains :: "string list list"
  ss_marks :: "mark list list"

inductive sim_background :: "SIMChecker \<Rightarrow> simsys \<Rightarrow> simsys \<Rightarrow> bool" for checker where
  start: "range_order (po_sims (ss_pool s)) ord \<Longrightarrow>
     sim_background checker s (s\<lparr>ss_pool := initActiveSubset ord (ss_pool s)\<rparr>)"
| rotate: "rand_Int_ok rd \<Longrightarrow> range_order (po_sims (ss_pool s)) o1 \<Longrightarrow>
     range_order (po_sims (ss_pool s)) o2 \<Longrightarrow> range_order (po_sims (ss_pool s)) o3 \<Longrightarrow>
     pool_rotate rd o1 o2 o3 now (ss_pool s) = (p', ret) \<Longrightarrow>
     sim_background checker s (s\<lparr>ss_pool := p', ss_drains := ss_drains s @ [ret]\<rparr>)"
| retire: "ss_drains s = pre @ ret # post \<Longrightarrow>
     sim_background checker s (s\<lparr>ss_pool := drain ret (ss_pool s), ss_drains := pre @ post\<rparr>)"
| inspect: "mget (po_sims (ss_pool s)) imsi = Some sim \<Longrightarrow>
     marks = active_marks checker now imsi sim \<or> marks = dormant_marks checker since now imsi sim \<Longrightarrow>
     sim_background checker s (s\<lparr>ss_marks := ss_marks s @ [marks]\<rparr>)"
| set_mark: "ss_marks s = pre @ (mk # marks) # post \<Longrightarrow>
     sim_background checker s (s\<lparr>ss_pool := apply_mark mk (ss_pool s), ss_marks := pre @ marks # post\<rparr>)"

text \<open>
  The goroutine of a connection handles a line: \<open>unmarshal\<close> is \<^verbatim>\<open>json.Unmarshal\<close> into a request, and
  random source, iteration order and clock are those of the moment.
\<close>

definition sim_handler :: "(bytes \<Rightarrow> goerr + simAPIRequest) \<Rightarrow> rand_int \<times> string list \<times> instant \<Rightarrow> bytes \<Rightarrow> simsys
    \<Rightarrow> (simsys \<times> simAPIResponse) go" where
  "sim_handler unmarshal env line s =
     (case env of (rd, ord, now) \<Rightarrow>
        let (p, resp) = handle_sim_line rd ord now (unmarshal line) (ss_pool s) in Ret (s\<lparr>ss_pool := p\<rparr>, resp))"

definition sim_env_ok :: "rand_int \<times> string list \<times> instant \<Rightarrow> simsys \<Rightarrow> bool" where
  "sim_env_ok env s = (case env of (rd, ord, now) \<Rightarrow> rand_Int_ok rd \<and> range_order (po_sims (ss_pool s)) ord)"

text \<open>
  Clients present non-empty tokens when they ask for a SIM.  The program does not check it, and the
  exclusiveness of sessions needs it: see \<open>allocate_empty_token_shares\<close>.
\<close>

definition sim_line_ok :: "(bytes \<Rightarrow> goerr + simAPIRequest) \<Rightarrow> bytes \<Rightarrow> bool" where
  "sim_line_ok unmarshal line =
     (case unmarshal line of
        Inl e \<Rightarrow> True
      | Inr req \<Rightarrow> sreq_Command req = simCmdAllocate \<longrightarrow> sreq_SessionToken req \<noteq> [])"

text \<open>The socket is set up, and \<^verbatim>\<open>main\<close> from the configuration file to the running goroutines.\<close>

definition sim_listen :: "listen_env \<Rightarrow> simsys \<Rightarrow> goerr + (simsys, simAPIResponse) server" where
  "sim_listen os s =
     (case le_mkdir os of
        Some e \<Rightarrow> Inl e
      | None \<Rightarrow> (case le_listen os of Some e \<Rightarrow> Inl e | None \<Rightarrow> Inr (serving s)))"

definition sim_main :: "(bytes \<Rightarrow> simConfig \<Rightarrow> simConfig \<times> goerr option) \<Rightarrow> read_result \<Rightarrow> instant \<Rightarrow> listen_env
    \<Rightarrow> (SIMChecker \<times> (simsys, simAPIResponse) server) process" where
  "sim_main unmarshal file now os =
     (case loadSimpoolConfig unmarshal file of
        Inl e \<Rightarrow> Exit 1
      | Inr cfg \<Rightarrow>
          (let p = load_inventory cfg now; checker = select_checker cfg
           in case sim_listen os \<lparr>ss_pool = p, ss_drains = [], ss_marks = []\<rparr> of
                Inl e \<Rightarrow> Exit 1
              | Inr srv \<Rightarrow> Serving (checker, srv)))"

definition sim_started :: "SIMChecker \<Rightarrow> (simsys, simAPIResponse) server \<Rightarrow> bool" where
  "sim_started checker s \<longleftrightarrow> (\<exists>unmarshal file now os. sim_main unmarshal file now os = Serving (checker, s))"

section \<open>Invariant\<close>

lemma load_inventory_facts:
  "po_sessions (load_inventory cfg now) = [] \<and> mwf (po_sims (load_inventory cfg now))
   \<and> (\<forall>k s. mget (po_sims (load_inventory cfg now)) k = Some s \<longrightarrow> sim_IMSI s = k \<and> sim_State s = SIMDormant)"
proof -
  have "po_sessions (fold pool_add sims p) = [] \<and> mwf (po_sims (fold pool_add sims p))
      \<and> (\<forall>k s. mget (po_sims (fold pool_add sims p)) k = Some s \<longrightarrow> sim_IMSI s = k \<and> sim_State s = SIMDormant)"
    if "po_sessions p = []" "mwf (po_sims p)"
      "\<forall>k s. mget (po_sims p) k = Some s \<longrightarrow> sim_IMSI s = k \<and> sim_State s = SIMDormant" for sims p
    using that
  proof (induction sims arbitrary: p)
    case (Cons sim sims)
    have "po_sessions (pool_add sim p) = []" "mwf (po_sims (pool_add sim p))"
      "\<forall>k s. mget (po_sims (pool_add sim p)) k = Some s \<longrightarrow> sim_IMSI s = k \<and> sim_State s = SIMDormant"
      using Cons.prems by (auto simp: pool_add_def)
    from Cons.IH [OF this] show ?case by simp
  qed simp
  from this [of "newPool now" "sc_SIMs cfg"] show ?thesis by (simp add: load_inventory_def newPool_def)
qed

lemma pool_sound_load: "pool_sound (load_inventory cfg now)"
  using load_inventory_facts [of cfg now] by (simp add: pool_sound_def)

lemma pool_sound_request:
  assumes "pool_sound p" and "rand_Int_ok rd"
    and "\<And>req. line = Inr req \<Longrightarrow> sreq_Command req = simCmdAllocate \<Longrightarrow> sreq_SessionToken req \<noteq> []"
  shows "pool_sound (fst (handle_sim_line rd ord now line p))"
proof (cases line)
  case (Inr req)
  show ?thesis
  proof (cases "sreq_Command req = simCmdAllocate")
    case True
    have "fst (handle_sim_line rd ord now line p) = fst (allocate rd ord (sreq_SessionToken req) now p)"
      using Inr True by (simp add: handle_sim_line_def split: prod.split sum.split)
    with pool_sound_allocate [OF assms(1,2) assms(3) [OF Inr True]] show ?thesis by simp
  next
    case False
    then have "fst (handle_sim_line rd ord now line p) = p
        \<or> fst (handle_sim_line rd ord now line p) = fst (release (sreq_SessionToken req) p)"
      using Inr by (simp add: handle_sim_line_def split: prod.split option.split)
    with assms(1) pool_sound_release [OF assms(1)] show ?thesis by metis
  qed
qed (simp add: handle_sim_line_def assms(1))

lemma sim_main_Serving:
  "sim_main unmarshal file now os = Serving (checker, s) \<longleftrightarrow>
     (\<exists>cfg. loadSimpoolConfig unmarshal file = Inr cfg \<and> checker = select_checker cfg \<and> le_mkdir os = None \<and> le_listen os = None
        \<and> s = serving \<lparr>ss_pool = load_inventory cfg now, ss_drains = [], ss_marks = []\<rparr>)"
  by (cases "loadSimpoolConfig unmarshal file"; cases "le_mkdir os"; cases "le_listen os")
    (auto simp: sim_main_def sim_listen_def Let_def)

lemma pool_sound_background:
  assumes s: "pool_sound (ss_pool s)" and "sim_background checker s t"
  shows "pool_sound (ss_pool t)"
  using assms(2)
proof cases
  case (rotate rd o1 o2 o3 now p' ret)
  then show ?thesis using pool_sound_rotate [OF s] by simp
next
  case (set_mark pre mk marks post)
  then show ?thesis using pool_sound_mark [OF s] by simp
qed (simp_all add: pool_sound_initActiveSubset pool_sound_drain s)

text \<open>An answer is what the handler makes of the line, for some sound pool.\<close>

definition sim_answer :: "(bytes \<Rightarrow> goerr + simAPIRequest) \<Rightarrow> bytes \<Rightarrow> simAPIResponse \<Rightarrow> bool" where
  "sim_answer unmarshal l r \<longleftrightarrow> (\<exists>rd ord now p. pool_sound p \<and> r = snd (handle_sim_line rd ord now (unmarshal l) p))"

interpretation simpool: line_server "sim_started checker" sim_env_ok "sim_handler unmarshal" "sim_background checker"
  "sim_line_ok unmarshal" "\<lambda>s. pool_sound (ss_pool s)" "sim_answer unmarshal" for checker unmarshal
proof
  fix s assume "sim_started checker s"
  then show "sv_conns s = [] \<and> pool_sound (ss_pool (sv_state s))"
    by (auto simp: sim_started_def sim_main_Serving serving_def pool_sound_load)
next
  fix st st' e l r
  assume s: "pool_sound (ss_pool st)" and e: "sim_env_ok e st" and l: "sim_line_ok unmarshal l"
    and h: "sim_handler unmarshal e l st = Ret (st', r)"
  obtain rd ord now where env: "e = (rd, ord, now)" by (cases e)
  have "pool_sound (fst (handle_sim_line rd ord now (unmarshal l) (ss_pool st)))"
    using s by (rule pool_sound_request) (use e l in \<open>auto simp: env sim_env_ok_def sim_line_ok_def\<close>)
  then show "pool_sound (ss_pool st') \<and> sim_answer unmarshal l r"
    using h s unfolding env sim_answer_def by (auto simp: sim_handler_def Let_def split: prod.splits) (metis snd_conv)
qed (rule pool_sound_background)

section \<open>Properties\<close>

text \<open>C3. The running SIM pool: in every state that the process can reach from the start of \<^verbatim>\<open>main\<close>, with any
  number of clients that ask for SIMs with non-empty tokens only, but otherwise send whatever they like, no two
  sessions share a SIM, and the SIM of every session exists and carries exactly that session's
  token.  On each connection the answers belong to the lines read so far, one for one and in order.
  Rotation, retirement, liveness checks and requests may interleave in any order.\<close>

theorem sessions_exclusive:
  assumes "reachable (sim_started checker)
    (server_step sim_env_ok (sim_handler unmarshal) (sim_background checker) (sim_line_ok unmarshal)) s"
  defines "p \<equiv> ss_pool (sv_state s)"
  shows "(\<forall>t u i. mget (po_sessions p) t = Some i \<and> mget (po_sessions p) u = Some i \<longrightarrow> t = u)
    \<and> (\<forall>t i. mget (po_sessions p) t = Some i \<longrightarrow>
          (\<exists>sim. mget (po_sims p) i = Some sim \<and> sim_IMSI sim = i \<and> sim_CurrentSession sim = t))
    \<and> (\<forall>c \<in> set (sv_conns s). list_all2 (sim_answer unmarshal) (co_read c) (co_answers c)
          \<and> (\<exists>data. scan_lines data = co_read c @ co_unread c))"
proof -
  have p: "pool_sound p" and c: "\<And>c. c \<in> set (sv_conns s) \<Longrightarrow> conn_ok (sim_line_ok unmarshal) (sim_answer unmarshal) c"
    using simpool.srv.reachable_inv [OF assms(1)] by (auto simp: p_def list_all_iff)
  have own: "\<exists>sim. mget (po_sims p) i = Some sim \<and> sim_IMSI sim = i \<and> sim_CurrentSession sim = t"
    if "mget (po_sessions p) t = Some i" for t i
    using pool_soundD(3,5) [OF p] that by metis
  show ?thesis
  proof (intro conjI allI impI ballI)
    fix t u i
    assume "mget (po_sessions p) t = Some i \<and> mget (po_sessions p) u = Some i"
    with own [of t i] own [of u i] show "t = u" by auto
  next
    fix c assume "c \<in> set (sv_conns s)"
    from c [OF this] show "list_all2 (sim_answer unmarshal) (co_read c) (co_answers c)"
      "\<exists>data. scan_lines data = co_read c @ co_unread c" by (simp_all add: conn_ok_def)
  qed (rule own)
qed

text \<open>A pool with one SIM, which the first client asks for.\<close>

definition ex_one_sim :: simConfig where
  "ex_one_sim = defaultSimConfig\<lparr>sc_SIMs := [ex_sim ''1'' SIMDormant]\<rparr>"

definition ex_sim_request :: "bytes \<Rightarrow> goerr + simAPIRequest" where
  "ex_sim_request l = Inr \<lparr>sreq_Command = simCmdAllocate, sreq_SessionToken = ''tok''\<rparr>"

definition ex_pool_process :: "SIMChecker \<times> (simsys, simAPIResponse) server" where
  "ex_pool_process = (noopChecker_Check, serving \<lparr>ss_pool = load_inventory ex_one_sim 0, ss_drains = [], ss_marks = []\<rparr>)"

lemma ex_pool_main:
  "sim_main (\<lambda>data cfg. (ex_one_sim, None)) (ReadOK []) 0 \<lparr>le_mkdir = None, le_listen = None\<rparr> = Serving ex_pool_process"
  by (simp add: sim_main_def loadSimpoolConfig_def sim_listen_def select_checker_def ex_pool_process_def)

theorem sessions_exclusive_witness:
  "\<exists>s resp. sim_main (\<lambda>data cfg. (ex_one_sim, None)) (ReadOK []) 0 \<lparr>le_mkdir = None, le_listen = None\<rparr> = Serving ex_pool_process
    \<and> reachable (sim_started noopChecker_Check) (server_step sim_env_ok (sim_handler ex_sim_request)
        (sim_background noopChecker_Check) (sim_line_ok ex_sim_request)) s
    \<and> map co_answers (sv_conns s) = [[resp]] \<and> sresp_IMSI resp = ''1''
    \<and> mget (po_sessions (ss_pool (sv_state s))) ''tok'' = Some ''1''
    \<and> (\<exists>sim. mget (po_sims (ss_pool (sv_state s))) ''1'' = Some sim \<and> sim_CurrentSession sim = ''tok'')"
proof -
  let ?step = "server_step sim_env_ok (sim_handler ex_sim_request) (sim_background noopChecker_Check) (sim_line_ok ex_sim_request)"
  let ?p0 = "load_inventory ex_one_sim 0"
  have p0: "?p0 = \<lparr>po_sims = [(''1'', ex_sim ''1'' SIMDormant)], po_lastRotation = 0, po_sessions = []\<rparr>"
    by (simp add: load_inventory_def ex_one_sim_def newPool_def pool_add_def ex_sim_def defaultSimConfig_def)
  have "targetCount ?p0 = 4"
    using ratio_floor [of 1] by (auto simp: targetCount_def p0 minActiveCount_def Let_def)
  then have p1: "initActiveSubset [''1''] ?p0 =
      \<lparr>po_sims = [(''1'', ex_sim ''1'' SIMActive)], po_lastRotation = 0, po_sessions = []\<rparr>"
    by (simp add: initActiveSubset_def p0 ex_sim_def)
  let ?s0 = "snd ex_pool_process"
  have r0: "reachable (sim_started noopChecker_Check) ?step ?s0"
    using ex_pool_main by (intro reach_init) (auto simp: sim_started_def ex_pool_process_def)
  let ?s1 = "?s0\<lparr>sv_state := (sv_state ?s0)\<lparr>ss_pool := initActiveSubset [''1''] ?p0\<rparr>\<rparr>"
  have "sim_background noopChecker_Check (sv_state ?s0) ((sv_state ?s0)\<lparr>ss_pool := initActiveSubset [''1''] ?p0\<rparr>)"
    using sim_background.start [of "sv_state ?s0" "[''1'']"] by (simp add: ex_pool_process_def serving_def p0 range_order_def)
  then have r1: "reachable (sim_started noopChecker_Check) ?step ?s1"
    by (rule reach_step [OF r0 server_step.background])
  obtain p resp where h: "handle_sim_line first_choice [''1''] 9 (ex_sim_request [65]) (initActiveSubset [''1''] ?p0) = (p, resp)"
    and p: "mget (po_sessions p) ''tok'' = Some ''1''" and resp: "sresp_IMSI resp = ''1''"
    by (simp add: handle_sim_line_def p1 allocate_def range_keys_def isAvailable_def ex_sim_def pool_randomInt_def
        first_choice_def Let_def ex_sim_request_def)
  have s1: "sv_state ?s1 = \<lparr>ss_pool = initActiveSubset [''1''] ?p0, ss_drains = [], ss_marks = []\<rparr>" "sv_conns ?s1 = []"
    by (simp_all add: ex_pool_process_def serving_def)
  have env: "sim_env_ok (first_choice, [''1''], 9) (sv_state ?s1)"
    unfolding s1 by (simp add: sim_env_ok_def rand_Int_ok_def first_choice_def p1 range_order_def)
  have hd: "sim_handler ex_sim_request (first_choice, [''1''], 9) [65] (sv_state ?s1) =
      Ret (\<lparr>ss_pool = p, ss_drains = [], ss_marks = []\<rparr>, resp)"
    unfolding s1 using h by (simp add: sim_handler_def)
  have line: "sim_line_ok ex_sim_request [65]" by (simp add: sim_line_ok_def ex_sim_request_def)
  obtain s where s: "reachable (sim_started noopChecker_Check) ?step s" "sv_state s = \<lparr>ss_pool = p, ss_drains = [], ss_marks = []\<rparr>"
    "sv_conns s = sv_conns ?s1 @ [\<lparr>co_read = [[65]], co_unread = [], co_answers = [resp]\<rparr>]"
    using one_line_served [where ok = sim_env_ok and h = "sim_handler ex_sim_request" and e = "(first_choice, [''1''], 9)"
        and okl = "sim_line_ok ex_sim_request" and s = ?s1, OF r1 env hd line] by blast
  have m: "map co_answers (sv_conns s) = [[resp]]" unfolding s(3) s1(2) by simp
  have "\<exists>sim. mget (po_sims p) ''1'' = Some sim \<and> sim_CurrentSession sim = ''tok''"
    using conjunct1 [OF conjunct2 [OF sessions_exclusive [OF s(1)]], unfolded s(2) simsys.simps] p by blast
  then show ?thesis
    using p resp s(1,2) m ex_pool_main by (intro exI [of _ s] exI [of _ resp]) simp
qed

end
