(* ===== verification/GoText.thy ===== *)
theory GoText
  imports Prelude
begin

text \<open>
  Decimal numbers in text, as \<^verbatim>\<open>fmt\<close>, \<^verbatim>\<open>strconv\<close> and \<^verbatim>\<open>time\<close> write them.
\<close>

definition digit :: "nat \<Rightarrow> char" where
  "digit d = char_of (48 + d)"

definition is_digit :: "char \<Rightarrow> bool" where
  "is_digit c \<longleftrightarrow> 48 \<le> (of_char c :: nat) \<and> (of_char c :: nat) \<le> 57"

definition digit_val :: "char \<Rightarrow> nat" where
  "digit_val c = of_char c - 48"

text \<open>The decimal representation without leading zeros.\<close>

fun dec :: "nat \<Rightarrow> string" where
  "dec n = (if n < 10 then [digit n] else dec (n div 10) @ [digit (n mod 10)])"

declare dec.simps [simp del]

text \<open>The number a string of digits stands for.\<close>

definition dec_val :: "string \<Rightarrow> nat" where
  "dec_val s = foldl (\<lambda>n c. 10 * n + digit_val c) 0 s"

text \<open>Padding with zeros on the left.\<close>

definition pad :: "nat \<Rightarrow> nat \<Rightarrow> string" where
  "pad w n = replicate (w - length (dec n)) (CHR ''0'') @ dec n"

lemma digit_char [simp]: "d < 10 \<Longrightarrow> (of_char (digit d) :: nat) = 48 + d"
  by (simp add: digit_def of_char_of)

lemma digit_val_digit [simp]: "d < 10 \<Longrightarrow> digit_val (digit d) = d"
  by (simp add: digit_val_def)

lemma is_digit_digit [simp]: "d < 10 \<Longrightarrow> is_digit (digit d)"
  by (simp add: is_digit_def)

lemma digit_zero: "CHR ''0'' = digit 0"
proof -
  have "(of_char (CHR ''0'') :: nat) = 48" by simp
  then show ?thesis by (metis add_0_right char_of_char digit_def)
qed

lemma digit_one: "CHR ''1'' = digit 1"
proof -
  have "(of_char (CHR ''1'') :: nat) = 48 + 1" by simp
  then show ?thesis by (metis char_of_char digit_def)
qed

lemma dec_val_append: "dec_val (s @ t) = dec_val s * 10 ^ length t + dec_val t"
proof -
  define f where "f = (\<lambda>n c. 10 * n + digit_val c)"
  have "foldl f k t = k * 10 ^ length t + foldl f 0 t" for k
  proof (induction t arbitrary: k)
    case (Cons c t)
    have "foldl f k (c # t) = (10 * k + digit_val c) * 10 ^ length t + foldl f 0 t"
      using Cons [of "f k c"] by (simp add: f_def)
    moreover have "foldl f 0 (c # t) = digit_val c * 10 ^ length t + foldl f 0 t"
      using Cons [of "f 0 c"] by (simp add: f_def)
    ultimately show ?case by (simp only: length_Cons power_Suc) (simp only: algebra_simps)
  qed simp
  from this [of "foldl f 0 s"] show ?thesis by (simp add: dec_val_def f_def [symmetric])
qed

lemma dec_val_single [simp]: "dec_val [c] = digit_val c"
  by (simp add: dec_val_def)

lemma dec_val_dec [simp]: "dec_val (dec n) = n"
proof (induction n rule: dec.induct)
  case (1 n)
  then show ?case by (cases "n < 10") (simp_all add: dec.simps [of n] dec_val_append)
qed

lemma dec_digits: "c \<in> set (dec n) \<Longrightarrow> is_digit c"
proof (induction n rule: dec.induct)
  case (1 n)
  then show ?case by (cases "n < 10") (auto simp: dec.simps [of n])
qed

lemma dec_nonempty [simp]: "dec n \<noteq> []"
  by (simp add: dec.simps [of n])

lemma dec_inj: "dec m = dec n \<longleftrightarrow> m = n"
  by (metis dec_val_dec)

lemma length_dec_le: "n < 10 ^ k \<Longrightarrow> 0 < k \<Longrightarrow> length (dec n) \<le> k"
proof (induction n arbitrary: k rule: dec.induct)
  case (1 n)
  show ?case
  proof (cases "n < 10")
    case True
    with 1(3) show ?thesis by (simp add: dec.simps [of n])
  next
    case False
    have "k \<noteq> 1" using False 1(2) by auto
    with 1(3) obtain j where k: "k = Suc j" "0 < j" by (cases k) auto
    then have "n div 10 < 10 ^ j" using 1(2) by (simp add: less_mult_imp_div_less mult.commute)
    with 1(1) False k have "length (dec (n div 10)) \<le> j" by blast
    with False k show ?thesis by (simp add: dec.simps [of n])
  qed
qed

text \<open>The first digit of a number that is not zero is not zero.\<close>

lemma dec_leading: "0 < n \<Longrightarrow> hd (dec n) \<noteq> CHR ''0''"
proof (induction n rule: dec.induct)
  case (1 n)
  show ?case
  proof (cases "n < 10")
    case True
    with 1(2) show ?thesis
      by (metis dec.simps digit_val_digit digit_zero less_numeral_extra(3) list.sel(1) zero_less_numeral)
  next
    case False
    with 1 show ?thesis by (simp add: dec.simps [of n] div_greater_zero_iff)
  qed
qed

lemma dec_val_zeros: "dec_val (replicate k (CHR ''0'') @ s) = dec_val s"
  by (induction k) (simp_all add: dec_val_def digit_val_def)

lemma dec_val_pad [simp]: "dec_val (pad w n) = n"
  by (simp add: pad_def dec_val_zeros)

lemma pad_inj: "pad w m = pad w n \<longleftrightarrow> m = n"
  by (metis dec_val_pad)

lemma length_pad: "n < 10 ^ w \<Longrightarrow> 0 < w \<Longrightarrow> length (pad w n) = w"
  using length_dec_le [of n w] by (simp add: pad_def)

lemma pad_digits: "c \<in> set (pad w n) \<Longrightarrow> is_digit c"
  unfolding pad_def using dec_digits digit_zero by (auto split: if_splits)

end
