(* ===== verification/GoTime.thy ===== *)
theory GoTime
  imports GoText
begin

text \<open>
  \<^verbatim>\<open>time.Time\<close> and its RFC 3339 format.  A time is an instant, in nanoseconds since the start of
  the year 0 in UTC, and the zone offset that a decoded time carries; the calendar is the
  proleptic Gregorian one.
\<close>

record Time =
  tm_inst :: instant
  tm_offset :: int

definition time_UTC :: "Time \<Rightarrow> Time" where
  "time_UTC t = t\<lparr>tm_offset := 0\<rparr>"

section \<open>Dates\<close>

type_synonym date = "int \<times> nat \<times> nat"

definition leap_year :: "int \<Rightarrow> bool" where
  "leap_year y \<longleftrightarrow> 4 dvd y \<and> (\<not> 100 dvd y \<or> 400 dvd y)"

definition days_in_month :: "int \<Rightarrow> nat \<Rightarrow> nat" where
  "days_in_month y m =
     (if m = 2 then (if leap_year y then 29 else 28) else if m \<in> {4, 6, 9, 11} then 30 else 31)"

fun next_day :: "date \<Rightarrow> date" where
  "next_day (y, m, d) =
     (if d < days_in_month y m then (y, m, d + 1)
      else if m < 12 then (y, m + 1, 1) else (y + 1, 1, 1))"

fun prev_day :: "date \<Rightarrow> date" where
  "prev_day (y, m, d) =
     (if 1 < d then (y, m, d - 1)
      else if 1 < m then (y, m - 1, days_in_month y (m - 1)) else (y - 1, 12, 31))"

text \<open>The date of a day, counted from the first of January of the year 0.\<close>

definition date_of_day :: "int \<Rightarrow> date" where
  "date_of_day n =
     (if 0 \<le> n then (next_day ^^ nat n) (0, 1, 1) else (prev_day ^^ nat (- n)) (0, 1, 1))"

section \<open>RFC 3339\<close>

definition year_text :: "int \<Rightarrow> string" where
  "year_text y = (if y < 0 then ''-'' @ pad 4 (nat (- y)) else pad 4 (nat y))"

text \<open>The second an instant falls into.\<close>

definition unix_second :: "instant \<Rightarrow> int" where
  "unix_second t = t div second"

definition format_RFC3339_UTC :: "instant \<Rightarrow> string" where
  "format_RFC3339_UTC t =
     (let s = unix_second t; (y, m, d) = date_of_day (s div 86400); r = nat (s mod 86400)
      in year_text y @ ''-'' @ pad 2 m @ ''-'' @ pad 2 d @ ''T'' @ pad 2 (r div 3600) @ '':'' @
         pad 2 (r div 60 mod 60) @ '':'' @ pad 2 (r mod 60) @ ''Z'')"

section \<open>Different seconds have different texts\<close>

definition date_less :: "date \<Rightarrow> date \<Rightarrow> bool" where
  "date_less a b \<longleftrightarrow> fst a < fst b \<or> fst a = fst b \<and> (fst (snd a) < fst (snd b)
     \<or> fst (snd a) = fst (snd b) \<and> snd (snd a) < snd (snd b))"

definition valid_date :: "date \<Rightarrow> bool" where
  "valid_date a \<longleftrightarrow> 1 \<le> fst (snd a) \<and> fst (snd a) \<le> 12 \<and> 1 \<le> snd (snd a)
     \<and> snd (snd a) \<le> days_in_month (fst a) (fst (snd a))"

lemma days_in_month_bounds: "28 \<le> days_in_month y m" "days_in_month y m \<le> 31"
  by (simp_all add: days_in_month_def)

lemma days_in_month_pos [simp]: "Suc 0 \<le> days_in_month y m"
  using days_in_month_bounds(1) [of y m] by simp

lemma valid_next: "valid_date a \<Longrightarrow> valid_date (next_day a)"
  by (cases a) (auto simp: valid_date_def)

lemma valid_prev:
  assumes "valid_date a"
  shows "valid_date (prev_day a)"
proof (cases a)
  case (fields y m d)
  have "days_in_month (y - 1) 12 = 31" by (simp add: days_in_month_def)
  with assms fields show ?thesis by (auto simp: valid_date_def)
qed

lemma next_greater: "date_less a (next_day a)"
  by (cases a) (auto simp: date_less_def)

lemma prev_less: "valid_date a \<Longrightarrow> date_less (prev_day a) a"
  by (cases a) (auto simp: date_less_def valid_date_def)

lemma date_less_trans: "date_less a b \<Longrightarrow> date_less b c \<Longrightarrow> date_less a c"
  by (auto simp: date_less_def)

lemma date_less_irrefl: "\<not> date_less a a"
  by (simp add: date_less_def)

lemma valid_start: "valid_date (0, Suc 0, Suc 0)"
  by (simp add: valid_date_def)

lemma valid_iterate: "valid_date ((next_day ^^ n) (0, 1, 1))" "valid_date ((prev_day ^^ n) (0, 1, 1))"
  by (induction n) (simp_all add: valid_start valid_next valid_prev del: next_day.simps prev_day.simps)

lemma valid_date_of_day: "valid_date (date_of_day n)"
  unfolding date_of_day_def using valid_iterate by simp

lemma date_of_day_Suc: "date_less (date_of_day n) (date_of_day (n + 1))"
proof (cases "0 \<le> n")
  case True
  then have "nat (n + 1) = Suc (nat n)" by simp
  with True next_greater show ?thesis by (simp add: date_of_day_def)
next
  case False
  then have "nat (- n) = Suc (nat (- (n + 1)))" by simp
  moreover have "date_less (-1, 12, 31) (0, Suc 0, Suc 0)" by (simp add: date_less_def)
  ultimately show ?thesis
    using False prev_less [OF valid_iterate(2), of "nat (- (n + 1))"] by (auto simp: date_of_day_def)
qed

lemma date_of_day_mono:
  assumes "m < n"
  shows "date_less (date_of_day m) (date_of_day n)"
proof -
  have "date_less (date_of_day m) (date_of_day (m + 1 + int k))" for k
  proof (induction k)
    case 0
    show ?case using date_of_day_Suc [of m] by simp
  next
    case (Suc k)
    from date_less_trans [OF Suc date_of_day_Suc] show ?case by (simp add: algebra_simps)
  qed
  from this [of "nat (n - m - 1)"] assms show ?thesis by simp
qed

lemma date_of_day_inj: "date_of_day m = date_of_day n \<longleftrightarrow> m = n"
  by (metis date_of_day_mono date_less_irrefl linorder_neqE)

lemma year_text_inj: "year_text y = year_text z \<longleftrightarrow> y = z"
proof -
  have "CHR ''-'' \<notin> set (pad 4 n)" for n using pad_digits [of "CHR ''-''" 4 n] by (auto simp: is_digit_def)
  then have "pad 4 n \<noteq> CHR ''-'' # t" for n t by (metis list.set_intros(1))
  then show ?thesis by (auto simp: year_text_def pad_inj dest: sym)
qed

text \<open>The part after the year has a fixed length.\<close>

lemma pieces_inj:
  assumes "length a = 2" "length b = 2" "length c = 2" "length d = 2" "length e = 2"
    and "length a' = 2" "length b' = 2" "length c' = 2" "length d' = 2" "length e' = 2"
    and eq: "y @ ''-'' @ a @ ''-'' @ b @ ''T'' @ c @ '':'' @ d @ '':'' @ e @ ''Z'' =
      y' @ ''-'' @ a' @ ''-'' @ b' @ ''T'' @ c' @ '':'' @ d' @ '':'' @ e' @ ''Z''"
  shows "y = y' \<and> a = a' \<and> b = b' \<and> c = c' \<and> d = d' \<and> e = e'"
proof -
  have "length (''-'' @ a @ ''-'' @ b @ ''T'' @ c @ '':'' @ d @ '':'' @ e @ ''Z'') =
      length (''-'' @ a' @ ''-'' @ b' @ ''T'' @ c' @ '':'' @ d' @ '':'' @ e' @ ''Z'')"
    using assms(1-10) by simp
  with eq have y: "y = y'" and rest: "''-'' @ a @ ''-'' @ b @ ''T'' @ c @ '':'' @ d @ '':'' @ e @ ''Z'' =
      ''-'' @ a' @ ''-'' @ b' @ ''T'' @ c' @ '':'' @ d' @ '':'' @ e' @ ''Z''"
    by (metis append_eq_append_conv)+
  from rest show ?thesis using y assms(1-10) by simp
qed

lemma hms: "(n :: nat) = 3600 * (n div 3600) + 60 * (n div 60 mod 60) + n mod 60"
proof -
  have "n div 60 = 60 * (n div 3600) + n div 60 mod 60"
    using div_mult_mod_eq [of "n div 60" 60] by (simp add: div_mult2_eq [of n 60 60, simplified])
  then show ?thesis using div_mult_mod_eq [of n 60] by linarith
qed

lemma format_inj:
  "format_RFC3339_UTC s = format_RFC3339_UTC t \<longleftrightarrow> unix_second s = unix_second t"
proof
  assume eq: "format_RFC3339_UTC s = format_RFC3339_UTC t"
  obtain y m d where D: "date_of_day (unix_second s div 86400) = (y, m, d)" by (cases rule: prod_cases3)
  obtain y' m' d' where D': "date_of_day (unix_second t div 86400) = (y', m', d')" by (cases rule: prod_cases3)
  define r r' where "r = nat (unix_second s mod 86400)" and "r' = nat (unix_second t mod 86400)"
  have md: "m < 10 ^ 2" "d < 10 ^ 2" "m' < 10 ^ 2" "d' < 10 ^ 2"
    using valid_date_of_day [of "unix_second s div 86400"] valid_date_of_day [of "unix_second t div 86400"]
      days_in_month_bounds(2) [of y m] days_in_month_bounds(2) [of y' m'] by (auto simp: D D' valid_date_def)
  have "r < 86400" "r' < 86400" by (simp_all add: r_def r'_def nat_less_iff)
  then have r: "r div 3600 < 10 ^ 2" "r' div 3600 < 10 ^ 2" "r div 60 mod 60 < 10 ^ 2" "r' div 60 mod 60 < 10 ^ 2"
      "r mod 60 < 10 ^ 2" "r' mod 60 < 10 ^ 2"
    by (simp_all add: less_mult_imp_div_less order_less_trans [OF mod_less_divisor])
  note len = md [THEN length_pad] r [THEN length_pad]
  have "year_text y = year_text y' \<and> pad 2 m = pad 2 m' \<and> pad 2 d = pad 2 d' \<and> pad 2 (r div 3600) = pad 2 (r' div 3600)
      \<and> pad 2 (r div 60 mod 60) = pad 2 (r' div 60 mod 60) \<and> pad 2 (r mod 60) = pad 2 (r' mod 60)"
  proof (rule pieces_inj)
    show "year_text y @ ''-'' @ pad 2 m @ ''-'' @ pad 2 d @ ''T'' @ pad 2 (r div 3600) @ '':'' @
          pad 2 (r div 60 mod 60) @ '':'' @ pad 2 (r mod 60) @ ''Z'' =
        year_text y' @ ''-'' @ pad 2 m' @ ''-'' @ pad 2 d' @ ''T'' @ pad 2 (r' div 3600) @ '':'' @
          pad 2 (r' div 60 mod 60) @ '':'' @ pad 2 (r' mod 60) @ ''Z''"
      using eq unfolding format_RFC3339_UTC_def Let_def D D' prod.case r_def r'_def .
  qed (use len in simp_all)
  then have day: "unix_second s div 86400 = unix_second t div 86400"
    and tod: "r div 3600 = r' div 3600" "r div 60 mod 60 = r' div 60 mod 60" "r mod 60 = r' mod 60"
    using date_of_day_inj [of "unix_second s div 86400" "unix_second t div 86400"] D D'
    by (simp_all add: year_text_inj pad_inj)
  have "r = r'" using hms [of r] hms [of r'] tod by simp
  then have "unix_second s mod 86400 = unix_second t mod 86400" by (simp add: r_def r'_def)
  with day show "unix_second s = unix_second t" by (metis div_mult_mod_eq)
qed (simp add: format_RFC3339_UTC_def)

text \<open>The separator of deduplication keys does not occur in a formatted time.\<close>

lemma format_no_bar: "CHR ''|'' \<notin> set (format_RFC3339_UTC t)"
proof -
  have d: "is_digit c \<Longrightarrow> c \<noteq> CHR ''|''" for c by (auto simp: is_digit_def)
  have "CHR ''|'' \<notin> set (pad w n)" for w n using d pad_digits by blast
  then show ?thesis
    by (simp add: format_RFC3339_UTC_def Let_def year_text_def split: prod.split)
qed

end
