(* ===== verification/Gossip_Record.thy ===== *)
theory Gossip_Record
  imports Base64 GoFloat GoTime
begin

text \<open>
  \<^verbatim>\<open>camo-gossip/keys.go\<close> and \<^verbatim>\<open>camo-gossip/record.go\<close>: the identity of a node, signed records and
  heartbeats, and the key by which records are recognised as already seen.  Ed25519 and JSON
  are parameters; the panics that the documentation of \<^verbatim>\<open>crypto/ed25519\<close> announces for keys of
  the wrong length are part of the model.
\<close>

section \<open>Ed25519\<close>

record ed25519 =
  ed_keypair :: "bytes \<Rightarrow> bytes \<Rightarrow> bool"
  ed_sign :: "bytes \<Rightarrow> bytes \<Rightarrow> bytes"
  ed_verify :: "bytes \<Rightarrow> bytes \<Rightarrow> bytes \<Rightarrow> bool"

definition ed25519_Sign :: "ed25519 \<Rightarrow> bytes \<Rightarrow> bytes \<Rightarrow> bytes go" where
  "ed25519_Sign ed priv msg =
     (if length priv \<noteq> 64 then Panic ''ed25519: bad private key length'' else Ret (ed_sign ed priv msg))"

definition ed25519_Verify :: "ed25519 \<Rightarrow> bytes \<Rightarrow> bytes \<Rightarrow> bytes \<Rightarrow> bool go" where
  "ed25519_Verify ed pub msg sig =
     (if length pub \<noteq> 32 then Panic ''ed25519: bad public key length'' else Ret (ed_verify ed pub msg sig))"

text \<open>What is relied on: the sizes of keys and signatures, and that signatures verify.\<close>

definition ed25519_ok :: "ed25519 \<Rightarrow> bool" where
  "ed25519_ok ed \<longleftrightarrow> (\<forall>pub priv msg. ed_keypair ed pub priv \<longrightarrow>
     length pub = 32 \<and> length priv = 64 \<and> length (ed_sign ed priv msg) = 64
     \<and> ed_verify ed pub msg (ed_sign ed priv msg))"

section \<open>Keys\<close>

record nodeKey =
  nk_PublicKey :: bytes
  nk_PrivateKey :: bytes

definition serverID :: "nodeKey \<Rightarrow> string" where
  "serverID k = EncodeToString RawURLEncoding (nk_PublicKey k)"

definition key_sign :: "ed25519 \<Rightarrow> nodeKey \<Rightarrow> bytes \<Rightarrow> string go" where
  "key_sign ed k message =
     bind_go (ed25519_Sign ed (nk_PrivateKey k) message) (\<lambda>sig. Ret (EncodeToString StdEncoding sig))"

definition verify :: "ed25519 \<Rightarrow> string \<Rightarrow> string \<Rightarrow> bytes \<Rightarrow> goerr option go" where
  "verify ed pubKeyB64 sigB64 message =
     (case DecodeString RawURLEncoding pubKeyB64 of
        Inl e \<Rightarrow> Ret (Some (Errorf ''invalid public key encoding''))
      | Inr pubKey \<Rightarrow>
          (case DecodeString StdEncoding sigB64 of
             Inl e \<Rightarrow> Ret (Some (Errorf ''invalid signature encoding''))
           | Inr sig \<Rightarrow>
               bind_go (ed25519_Verify ed pubKey message sig) (\<lambda>ok.
                 if \<not> ok then Ret (Some (Errorf ''signature verification failed'')) else Ret None)))"

record persistedKey =
  pk_PublicKey :: string
  pk_PrivateKey :: string

text \<open>
  The outside world of \<^verbatim>\<open>loadOrGenerateKey\<close>: the file, its JSON coding, key generation, and the
  outcomes of creating the directory and writing.  The result is the key and, when a file is
  written, its content.
\<close>

record key_env =
  ke_file :: read_result
  ke_unmarshal :: "bytes \<Rightarrow> goerr + persistedKey"
  ke_marshal :: "persistedKey \<Rightarrow> goerr + bytes"
  ke_generate :: "goerr + bytes \<times> bytes"
  ke_mkdir :: "goerr option"
  ke_write :: "goerr option"

definition loadOrGenerateKey :: "key_env \<Rightarrow> (goerr + nodeKey) \<times> bytes option" where
  "loadOrGenerateKey env =
     (case ke_file env of
        ReadOK data \<Rightarrow>
          (case ke_unmarshal env data of
             Inl e \<Rightarrow> (Inl e, None)
           | Inr pk \<Rightarrow>
               (case DecodeString StdEncoding (pk_PublicKey pk) of
                  Inl e \<Rightarrow> (Inl e, None)
                | Inr pub \<Rightarrow>
                    (case DecodeString StdEncoding (pk_PrivateKey pk) of
                       Inl e \<Rightarrow> (Inl e, None)
                     | Inr priv \<Rightarrow> (Inr \<lparr>nk_PublicKey = pub, nk_PrivateKey = priv\<rparr>, None))))
      | ReadError e \<Rightarrow> (Inl e, None)
      | ReadNotExist e \<Rightarrow>
          (case ke_generate env of
             Inl e \<Rightarrow> (Inl e, None)
           | Inr (pub, priv) \<Rightarrow>
               (case ke_marshal env \<lparr>pk_PublicKey = EncodeToString StdEncoding pub,
                                     pk_PrivateKey = EncodeToString StdEncoding priv\<rparr> of
                  Inl e \<Rightarrow> (Inl e, None)
                | Inr data \<Rightarrow>
                    (case ke_mkdir env of
                       Some e \<Rightarrow> (Inl e, None)
                     | None \<Rightarrow>
                         (case ke_write env of
                            Some e \<Rightarrow> (Inl e, None)
                          | None \<Rightarrow> (Inr \<lparr>nk_PublicKey = pub, nk_PrivateKey = priv\<rparr>, Some data))))))"

section \<open>Records and messages\<close>

definition protocolVersion :: string where "protocolVersion = ''0.1''"

record Endpoints =
  ep_WireGuard :: string
  ep_GTP :: string

record Capabilities =
  ca_SIMPoolSize :: int
  ca_Regions :: "string list"
  ca_Jurisdictions :: "string list"
  ca_Uptime30d :: float64
  ca_ExitNode :: bool
  ca_MaxCircuits :: int

record NodeRecord =
  nr_Version :: string
  nr_ServerID :: string
  nr_WireGuardKey :: string
  nr_Endpoints :: Endpoints
  nr_Capabilities :: Capabilities
  nr_Timestamp :: Time
  nr_Signature :: string

record Heartbeat =
  hb_ServerID :: string
  hb_Timestamp :: Time
  hb_ActiveCircuits :: int
  hb_SIMPoolAvailable :: int
  hb_Signature :: string

record Message =
  ms_Type :: string
  ms_Payload :: bytes

definition msgNodeRecord :: string where "msgNodeRecord = ''node_record''"
definition msgHeartbeat :: string where "msgHeartbeat = ''heartbeat''"

text \<open>\<^verbatim>\<open>encoding/json\<close> on the types of the program.\<close>

record codec =
  js_record :: "NodeRecord \<Rightarrow> goerr + bytes"
  js_heartbeat :: "Heartbeat \<Rightarrow> goerr + bytes"
  js_message :: "Message \<Rightarrow> goerr + bytes"
  un_record :: "bytes \<Rightarrow> goerr + NodeRecord"
  un_heartbeat :: "bytes \<Rightarrow> goerr + Heartbeat"
  un_message :: "bytes \<Rightarrow> goerr + Message"

text \<open>
  Signing and verifying work on the object in place: the signature is cleared while the
  canonical form is computed.  The functions return the object as they leave it.
\<close>

definition signRecord :: "ed25519 \<Rightarrow> codec \<Rightarrow> NodeRecord \<Rightarrow> nodeKey \<Rightarrow> (NodeRecord \<times> goerr option) go" where
  "signRecord ed js r k =
     (let r0 = r\<lparr>nr_Signature := []\<rparr> in
      case js_record js r0 of
        Inl e \<Rightarrow> Ret (r0, Some e)
      | Inr data \<Rightarrow> bind_go (key_sign ed k data) (\<lambda>sig. Ret (r0\<lparr>nr_Signature := sig\<rparr>, None)))"

definition verifyRecord :: "ed25519 \<Rightarrow> codec \<Rightarrow> NodeRecord \<Rightarrow> (NodeRecord \<times> goerr option) go" where
  "verifyRecord ed js r =
     (if nr_Signature r = [] then Ret (r, Some (Errorf ''missing signature''))
      else
        (let sig = nr_Signature r; r0 = r\<lparr>nr_Signature := []\<rparr>; data = js_record js r0;
             r1 = r0\<lparr>nr_Signature := sig\<rparr>
         in case data of
              Inl e \<Rightarrow> Ret (r1, Some e)
            | Inr bs \<Rightarrow> bind_go (verify ed (nr_ServerID r1) sig bs) (\<lambda>err. Ret (r1, err))))"

definition signHeartbeat :: "ed25519 \<Rightarrow> codec \<Rightarrow> Heartbeat \<Rightarrow> nodeKey \<Rightarrow> (Heartbeat \<times> goerr option) go" where
  "signHeartbeat ed js h k =
     (let h0 = h\<lparr>hb_Signature := []\<rparr> in
      case js_heartbeat js h0 of
        Inl e \<Rightarrow> Ret (h0, Some e)
      | Inr data \<Rightarrow> bind_go (key_sign ed k data) (\<lambda>sig. Ret (h0\<lparr>hb_Signature := sig\<rparr>, None)))"

definition verifyHeartbeat :: "ed25519 \<Rightarrow> codec \<Rightarrow> Heartbeat \<Rightarrow> string \<Rightarrow> (Heartbeat \<times> goerr option) go" where
  "verifyHeartbeat ed js h pubKeyB64 =
     (if hb_Signature h = [] then Ret (h, Some (Errorf ''missing signature''))
      else
        (let sig = hb_Signature h; h0 = h\<lparr>hb_Signature := []\<rparr>; data = js_heartbeat js h0;
             h1 = h0\<lparr>hb_Signature := sig\<rparr>
         in case data of
              Inl e \<Rightarrow> Ret (h1, Some e)
            | Inr bs \<Rightarrow> bind_go (verify ed pubKeyB64 sig bs) (\<lambda>err. Ret (h1, err))))"

definition recordKey :: "NodeRecord \<Rightarrow> string" where
  "recordKey r = nr_ServerID r @ ''|'' @ format_RFC3339_UTC (tm_inst (time_UTC (nr_Timestamp r)))"

section \<open>Lemmas\<close>

lemma restore_signature [simp]: "r\<lparr>nr_Signature := []\<rparr>\<lparr>nr_Signature := nr_Signature r\<rparr> = r"
  by simp

lemma verifyRecord_object: "verifyRecord ed js r = Ret (r', res) \<Longrightarrow> r' = r"
  by (auto simp: verifyRecord_def Let_def bind_go_Ret_iff split: if_splits sum.splits)

lemma verifyHeartbeat_object: "verifyHeartbeat ed js h pk = Ret (h', res) \<Longrightarrow> h' = h"
  by (auto simp: verifyHeartbeat_def Let_def bind_go_Ret_iff split: if_splits sum.splits)

text \<open>Verification of what the holder of a key pair has signed.\<close>

lemma verify_sign:
  assumes "ed25519_ok ed" and "ed_keypair ed (nk_PublicKey k) (nk_PrivateKey k)"
  shows "\<exists>sig. key_sign ed k msg = Ret sig \<and> sig \<noteq> [] \<and> verify ed (serverID k) sig msg = Ret None"
proof -
  let ?sig = "ed_sign ed (nk_PrivateKey k) msg"
  have ok: "length (nk_PublicKey k) = 32" "length (nk_PrivateKey k) = 64" "length ?sig = 64"
    "ed_verify ed (nk_PublicKey k) msg ?sig"
    using assms by (simp_all add: ed25519_ok_def)
  have "EncodeToString StdEncoding ?sig \<noteq> []"
    using length_EncodeToString_Std [of ?sig] ok(3) by auto
  moreover have "verify ed (serverID k) (EncodeToString StdEncoding ?sig) msg = Ret None"
    using ok by (simp add: verify_def serverID_def std.roundtrip rawurl.roundtrip ed25519_Verify_def)
  ultimately show ?thesis using ok(2) by (simp add: key_sign_def ed25519_Sign_def)
qed

lemma serverID_inj: "serverID k = serverID k' \<Longrightarrow> nk_PublicKey k = nk_PublicKey k'"
  by (simp add: serverID_def rawurl.encode_inj)

text \<open>Equality of deduplication keys.\<close>

lemma recordKey_inj:
  "recordKey r = recordKey r' \<longleftrightarrow> nr_ServerID r = nr_ServerID r'
    \<and> tm_inst (nr_Timestamp r) div second = tm_inst (nr_Timestamp r') div second"
proof -
  have "a @ ''|'' @ s = b @ ''|'' @ t \<longleftrightarrow> a = b \<and> s = t"
    if "CHR ''|'' \<notin> set s" "CHR ''|'' \<notin> set t" for a b s t :: string
  proof
    assume eq: "a @ ''|'' @ s = b @ ''|'' @ t"
    have split: "takeWhile (\<lambda>c. c \<noteq> CHR ''|'') (rev (x @ ''|'' @ u)) = rev u" if "CHR ''|'' \<notin> set u" for x u :: string
    proof -
      have "\<And>c. c \<in> set (rev u) \<Longrightarrow> c \<noteq> CHR ''|''" using that by auto
      from takeWhile_append2 [of "rev u" "\<lambda>c. c \<noteq> CHR ''|''", OF this] show ?thesis by simp
    qed
    have "rev s = rev t" using split [OF that(1), of a] split [OF that(2), of b] unfolding eq by (rule trans [OF sym])
    with eq show "a = b \<and> s = t" by simp
  qed simp
  then show ?thesis
    using format_no_bar by (simp add: recordKey_def time_UTC_def format_inj unix_second_def)
qed

section \<open>Examples\<close>

text \<open>A signature scheme that is correct, though not secure, and a coding of records.\<close>

definition ex_ed :: ed25519 where
  "ex_ed = \<lparr>ed_keypair = (\<lambda>pub priv. length pub = 32 \<and> priv = pub @ pub),
     ed_sign = (\<lambda>priv msg. take 64 (take 32 priv @ msg @ replicate 32 0)),
     ed_verify = (\<lambda>pub msg sig. sig = take 64 (pub @ msg @ replicate 32 0))\<rparr>"

lemma ex_ed_ok: "ed25519_ok ex_ed"
  by (auto simp: ed25519_ok_def ex_ed_def)

definition ex_key :: nodeKey where
  "ex_key = \<lparr>nk_PublicKey = replicate 32 7, nk_PrivateKey = replicate 64 7\<rparr>"

lemma ex_key_pair: "ed_keypair ex_ed (nk_PublicKey ex_key) (nk_PrivateKey ex_key)"
  by (simp add: ex_ed_def ex_key_def flip: replicate_add)

definition ex_time :: "int \<Rightarrow> Time" where
  "ex_time n = \<lparr>tm_inst = n, tm_offset = 0\<rparr>"

definition ex_record :: "string \<Rightarrow> int \<Rightarrow> NodeRecord" where
  "ex_record sid n = \<lparr>nr_Version = protocolVersion, nr_ServerID = sid, nr_WireGuardKey = ''k'',
     nr_Endpoints = \<lparr>ep_WireGuard = ''192.0.2.1:51820'', ep_GTP = ''192.0.2.1:2152''\<rparr>,
     nr_Capabilities = \<lparr>ca_SIMPoolSize = 0, ca_Regions = [''SE''], ca_Jurisdictions = [''SE''],
       ca_Uptime30d = Fin 1 0, ca_ExitNode = True, ca_MaxCircuits = 100\<rparr>,
     nr_Timestamp = ex_time n, nr_Signature = []\<rparr>"

lemma ex_record_fields [simp]:
  "nr_ServerID (ex_record sid n) = sid" "tm_inst (nr_Timestamp (ex_record sid n)) = n"
  "nr_Signature (ex_record sid n) = []"
  by (simp_all add: ex_record_def ex_time_def)

definition ex_js :: codec where
  "ex_js = \<lparr>js_record = (\<lambda>r. Inr [1]), js_heartbeat = (\<lambda>h. Inr [2]), js_message = (\<lambda>m. Inr (ms_Payload m)),
     un_record = (\<lambda>b. Inl (LibError ''json'')), un_heartbeat = (\<lambda>b. Inl (LibError ''json'')),
     un_message = (\<lambda>b. Inl (LibError ''json''))\<rparr>"

text \<open>Signing and then verifying.\<close>

lemma signed_verifies:
  assumes "ed25519_ok ed" and "ed_keypair ed (nk_PublicKey k) (nk_PrivateKey k)"
    and "nr_ServerID r = serverID k" and "js_record js (r\<lparr>nr_Signature := []\<rparr>) = Inr data"
  shows "\<exists>sig. (\<forall>s. signRecord ed js (r\<lparr>nr_Signature := s\<rparr>) k = Ret (r\<lparr>nr_Signature := sig\<rparr>, None))
    \<and> verifyRecord ed js (r\<lparr>nr_Signature := sig\<rparr>) = Ret (r\<lparr>nr_Signature := sig\<rparr>, None)"
proof -
  obtain sig where sig: "key_sign ed k data = Ret sig" "sig \<noteq> []" "verify ed (serverID k) sig data = Ret None"
    using verify_sign [OF assms(1,2)] by blast
  have "\<forall>s. signRecord ed js (r\<lparr>nr_Signature := s\<rparr>) k = Ret (r\<lparr>nr_Signature := sig\<rparr>, None)"
    using assms(4) sig(1) by (simp add: signRecord_def Let_def)
  moreover have "verifyRecord ed js (r\<lparr>nr_Signature := sig\<rparr>) = Ret (r\<lparr>nr_Signature := sig\<rparr>, None)"
    using assms(3,4) sig(2,3) by (simp add: verifyRecord_def Let_def)
  ultimately show ?thesis by blast
qed

section \<open>Properties\<close>

text \<open>C27. A record signed with the node's key passes verification, and verification leaves it as it
  is; signing changes the signature only and does not depend on the old one.\<close>

theorem sign_verify_record:
  assumes "ed25519_ok ed" and "ed_keypair ed (nk_PublicKey k) (nk_PrivateKey k)"
    and "nr_ServerID r = serverID k" and "js_record js (r\<lparr>nr_Signature := []\<rparr>) = Inr data"
  shows "\<exists>r'. signRecord ed js r k = Ret (r', None) \<and> verifyRecord ed js r' = Ret (r', None)
    \<and> r'\<lparr>nr_Signature := []\<rparr> = r\<lparr>nr_Signature := []\<rparr> \<and> (\<forall>s. signRecord ed js (r\<lparr>nr_Signature := s\<rparr>) k = Ret (r', None))"
proof -
  obtain sig where sig: "\<And>s. signRecord ed js (r\<lparr>nr_Signature := s\<rparr>) k = Ret (r\<lparr>nr_Signature := sig\<rparr>, None)"
    and v: "verifyRecord ed js (r\<lparr>nr_Signature := sig\<rparr>) = Ret (r\<lparr>nr_Signature := sig\<rparr>, None)"
    using signed_verifies [OF assms] by blast
  have "signRecord ed js r k = Ret (r\<lparr>nr_Signature := sig\<rparr>, None)" using sig [of "nr_Signature r"] by simp
  then show ?thesis using sig v by (intro exI [of _ "r\<lparr>nr_Signature := sig\<rparr>"]) simp
qed

theorem sign_verify_record_witness:
  "\<exists>r'. signRecord ex_ed ex_js (ex_record (serverID ex_key) 5) ex_key = Ret (r', None)
    \<and> verifyRecord ex_ed ex_js r' = Ret (r', None)"
  using sign_verify_record [OF ex_ed_ok ex_key_pair, of "ex_record (serverID ex_key) 5" ex_js "[1]"]
  by (auto simp: ex_record_def ex_js_def)

text \<open>C28. The deduplication key identifies the server and the second: two records have the same key
  exactly when they come from the same server and their timestamps fall into the same second,
  whatever the zones of the timestamps are.\<close>

theorem recordKey_same:
  "recordKey r = recordKey r' \<longleftrightarrow> nr_ServerID r = nr_ServerID r'
    \<and> tm_inst (nr_Timestamp r) div second = tm_inst (nr_Timestamp r') div second"
  by (rule recordKey_inj)

text \<open>The file entry of a key: both halves in base64, so that it consists of ASCII characters only.\<close>

definition persisted :: "nodeKey \<Rightarrow> persistedKey" where
  "persisted k = \<lparr>pk_PublicKey = EncodeToString StdEncoding (nk_PublicKey k), pk_PrivateKey = EncodeToString StdEncoding (nk_PrivateKey k)\<rparr>"

text \<open>A key that was generated and written is the key that is loaded from this file, provided that the
  file coding reads this entry back as it wrote it.\<close>

lemma loadOrGenerateKey_again:
  assumes "loadOrGenerateKey env = (Inr k, Some data)" and "ke_file env' = ReadOK data" and "ke_unmarshal env' = ke_unmarshal env"
    and "\<And>d. ke_marshal env (persisted k) = Inr d \<Longrightarrow> ke_unmarshal env d = Inr (persisted k)"
  shows "loadOrGenerateKey env' = (Inr k, None)"
proof -
  have "ke_marshal env (persisted k) = Inr data"
    using assms(1) by (auto simp: loadOrGenerateKey_def persisted_def split: read_result.splits sum.splits option.splits prod.splits)
  from assms(4) [OF this] have "ke_unmarshal env' data = Inr (persisted k)" using assms(3) by simp
  then show ?thesis using assms(2) by (simp add: loadOrGenerateKey_def persisted_def std.roundtrip del: EncodeToString.simps)
qed

definition ex_key_env :: key_env where
  "ex_key_env = \<lparr>ke_file = ReadNotExist (LibError ''no file''),
     ke_unmarshal = (\<lambda>b. Inr \<lparr>pk_PublicKey = map (char_of \<circ> unat) (take 44 b), pk_PrivateKey = map (char_of \<circ> unat) (drop 44 b)\<rparr>),
     ke_marshal = (\<lambda>pk. if length (pk_PublicKey pk) = 44 then Inr (map (of_nat \<circ> of_char) (pk_PublicKey pk @ pk_PrivateKey pk))
       else Inl (LibError ''json'')),
     ke_generate = Inr (nk_PublicKey ex_key, nk_PrivateKey ex_key), ke_mkdir = None, ke_write = None\<rparr>"

lemma ex_key_generated: "\<exists>data. loadOrGenerateKey ex_key_env = (Inr ex_key, Some data)"
proof -
  have "length (EncodeToString StdEncoding (replicate 32 7)) = 44"
    using length_EncodeToString_Std [of "replicate 32 7"] by simp
  then show ?thesis by (simp add: loadOrGenerateKey_def ex_key_env_def ex_key_def)
qed

lemma ex_key_coding: "ke_marshal ex_key_env pk = Inr d \<Longrightarrow> ke_unmarshal ex_key_env d = Inr pk"
proof -
  have char: "char_of (unat (of_nat (of_char c) :: byte)) = c" for c :: char
    using nat_of_char_less_256 [of c] by (simp add: unat_of_nat take_bit_nat_eq_self)
  show "ke_marshal ex_key_env pk = Inr d \<Longrightarrow> ke_unmarshal ex_key_env d = Inr pk"
    by (auto simp: ex_key_env_def char comp_def split: if_splits)
qed

end
