(* ===== verification/Gossip_Store.thy ===== *)
theory Gossip_Store
  imports Gossip_Record
begin

text \<open>
  \<^verbatim>\<open>camo-gossip/store.go\<close> and \<^verbatim>\<open>camo-gossip/peer.go\<close>: the record store with deduplication, liveness
  and expiry, and the peer list.  The store holds pointers to records, and the node's own
  record is changed later through another pointer to it; records therefore live in a heap,
  and the store holds their addresses.
\<close>

section \<open>Heap of records\<close>

type_synonym addr = nat
type_synonym heap = "NodeRecord list"

definition new_record :: "NodeRecord \<Rightarrow> heap \<Rightarrow> heap \<times> addr" where
  "new_record r h = (h @ [r], length h)"

section \<open>The store\<close>

definition recordExpiry :: duration where "recordExpiry = 24 * 3600 * second"

definition livenessTimeout :: duration where "livenessTimeout = 300 * second"

record entry =
  en_Record :: addr
  en_LastSeen :: instant
  en_Active :: bool

record store =
  st_records :: "(string, entry) gomap"
  st_seen :: "(string, bool) gomap"

definition newStore :: store where
  "newStore = \<lparr>st_records = [], st_seen = []\<rparr>"

definition isSeen :: "string \<Rightarrow> store \<Rightarrow> bool" where
  "isSeen k s = (case mget (st_seen s) k of Some b \<Rightarrow> b | None \<Rightarrow> False)"

definition store_put :: "heap \<Rightarrow> instant \<Rightarrow> addr \<Rightarrow> store \<Rightarrow> store \<times> bool" where
  "store_put h now a s =
     (let k = recordKey (h ! a) in
      if isSeen k s then (s, False)
      else (s\<lparr>st_seen := mput k True (st_seen s),
              st_records := mput (nr_ServerID (h ! a))
                \<lparr>en_Record = a, en_LastSeen = now, en_Active = True\<rparr> (st_records s)\<rparr>, True))"

definition store_heartbeat :: "instant \<Rightarrow> string \<Rightarrow> store \<Rightarrow> store" where
  "store_heartbeat now sid s =
     s\<lparr>st_records := mmod sid (\<lambda>e. e\<lparr>en_LastSeen := now, en_Active := True\<rparr>) (st_records s)\<rparr>"

definition store_get :: "string \<Rightarrow> store \<Rightarrow> addr option" where
  "store_get sid s = map_option en_Record (mget (st_records s) sid)"

definition activeRecords :: "string list \<Rightarrow> store \<Rightarrow> addr list" where
  "activeRecords ord s = map en_Record (filter en_Active (range_vals (st_records s) ord))"

definition allRecords :: "string list \<Rightarrow> store \<Rightarrow> addr list" where
  "allRecords ord s = map en_Record (range_vals (st_records s) ord)"

text \<open>One round of the maintenance loop; a key that is gone has no round.\<close>

definition expire_one :: "heap \<Rightarrow> instant \<Rightarrow> string \<Rightarrow> store \<Rightarrow> store" where
  "expire_one h now sid s =
     (case mget (st_records s) sid of
        None \<Rightarrow> s
      | Some e \<Rightarrow>
          if time_Sub now (tm_inst (nr_Timestamp (h ! en_Record e))) > recordExpiry
          then s\<lparr>st_records := mdel sid (st_records s)\<rparr>
          else if time_Sub now (en_LastSeen e) > livenessTimeout
          then s\<lparr>st_records := mmod sid (\<lambda>e. e\<lparr>en_Active := False\<rparr>) (st_records s)\<rparr>
          else s)"

definition expireAndCheck :: "heap \<Rightarrow> instant \<Rightarrow> string list \<Rightarrow> store \<Rightarrow> store" where
  "expireAndCheck h now ord s = fold (expire_one h now) ord s"

section \<open>Peers\<close>

record peer =
  pe_Addr :: string
  pe_LastSeen :: instant
  pe_Active :: bool

type_synonym peerManager = "(string, peer) gomap"

definition newPeerManager :: "instant \<Rightarrow> string list \<Rightarrow> peerManager" where
  "newPeerManager now bootstrapAddrs =
     fold (\<lambda>a. mput a \<lparr>pe_Addr = a, pe_LastSeen = now, pe_Active = True\<rparr>) bootstrapAddrs []"

definition peer_add :: "instant \<Rightarrow> string \<Rightarrow> peerManager \<Rightarrow> peerManager" where
  "peer_add now a pm =
     (if mget pm a = None then mput a \<lparr>pe_Addr = a, pe_LastSeen = now, pe_Active = True\<rparr> pm else pm)"

definition peer_seen :: "instant \<Rightarrow> string \<Rightarrow> peerManager \<Rightarrow> peerManager" where
  "peer_seen now a pm = mmod a (\<lambda>p. p\<lparr>pe_LastSeen := now, pe_Active := True\<rparr>) pm"

definition activeAddrs :: "string list \<Rightarrow> peerManager \<Rightarrow> string list" where
  "activeAddrs ord pm = filter (\<lambda>a. case mget pm a of Some p \<Rightarrow> pe_Active p | None \<Rightarrow> False) ord"

definition allAddrs :: "string list \<Rightarrow> peerManager \<Rightarrow> string list" where
  "allAddrs ord pm = filter (\<lambda>a. mget pm a \<noteq> None) ord"

text \<open>The invariant of the peer list: keys and addresses agree, and every peer is active.\<close>

definition peers_inv :: "peerManager \<Rightarrow> bool" where
  "peers_inv pm \<longleftrightarrow> mwf pm \<and> (\<forall>a p. mget pm a = Some p \<longrightarrow> pe_Addr p = a \<and> pe_Active p)"

lemma peers_inv_add: "peers_inv pm \<Longrightarrow> peers_inv (peer_add now a pm)"
  by (auto simp: peers_inv_def peer_add_def)

lemma peers_inv_seen: "peers_inv pm \<Longrightarrow> peers_inv (peer_seen now a pm)"
  by (auto simp: peers_inv_def peer_seen_def)

lemma peers_inv_new: "peers_inv (newPeerManager now as)"
proof -
  have one: "peers_inv (mput a \<lparr>pe_Addr = a, pe_LastSeen = now, pe_Active = True\<rparr> pm)" if "peers_inv pm" for a pm
    using that by (simp add: peers_inv_def)
  have "peers_inv (fold (\<lambda>a. mput a \<lparr>pe_Addr = a, pe_LastSeen = now, pe_Active = True\<rparr>) as pm)" if "peers_inv pm" for pm
    using that by (induction as arbitrary: pm) (simp_all add: one)
  moreover have "peers_inv []" by (simp add: peers_inv_def)
  ultimately show ?thesis unfolding newPeerManager_def by blast
qed

lemma activeAddrs_all: "peers_inv pm \<Longrightarrow> activeAddrs ord pm = allAddrs ord pm"
  unfolding activeAddrs_def allAddrs_def peers_inv_def
  by (rule filter_cong [OF refl]) (simp split: option.split)

section \<open>The maintenance pass on each record\<close>

text \<open>The outcome of a pass for one entry.\<close>

definition expire_entry :: "heap \<Rightarrow> instant \<Rightarrow> entry \<Rightarrow> entry option" where
  "expire_entry h now e =
     (if time_Sub now (tm_inst (nr_Timestamp (h ! en_Record e))) > recordExpiry then None
      else if time_Sub now (en_LastSeen e) > livenessTimeout then Some (e\<lparr>en_Active := False\<rparr>) else Some e)"

lemma expire_one_get:
  "mget (st_records (expire_one h now sid s)) i =
     (if i = sid then Option.bind (mget (st_records s) sid) (expire_entry h now) else mget (st_records s) i)"
  by (simp add: expire_one_def expire_entry_def split: option.split)

lemma expire_one_seen [simp]: "st_seen (expire_one h now sid s) = st_seen s"
  by (simp add: expire_one_def split: option.split)

lemma expireAndCheck_get:
  assumes "distinct ord"
  shows "mget (st_records (expireAndCheck h now ord s)) i =
    (if i \<in> set ord then Option.bind (mget (st_records s) i) (expire_entry h now) else mget (st_records s) i)"
  using assms unfolding expireAndCheck_def
  by (induction ord arbitrary: s) (simp_all add: expire_one_get)

lemma expireAndCheck_seen [simp]: "st_seen (expireAndCheck h now ord s) = st_seen s"
  unfolding expireAndCheck_def by (induction ord arbitrary: s) simp_all

lemma mwf_expire: "mwf (st_records s) \<Longrightarrow> mwf (st_records (expireAndCheck h now ord s))"
proof -
  have "mwf (st_records s) \<Longrightarrow> mwf (st_records (expire_one h now i s))" for i s
    by (simp add: expire_one_def split: option.split)
  then show "mwf (st_records s) \<Longrightarrow> mwf (st_records (expireAndCheck h now ord s))"
    unfolding expireAndCheck_def by (induction ord arbitrary: s) simp_all
qed

text \<open>
  An abstract view of the store, for clients that only add, refresh and look up: which server
  has which record, and which keys are known.
\<close>

locale record_cache =
  fixes lookup :: "'s \<Rightarrow> string \<Rightarrow> addr option" and known :: "'s \<Rightarrow> string \<Rightarrow> bool"
    and add :: "heap \<Rightarrow> instant \<Rightarrow> addr \<Rightarrow> 's \<Rightarrow> 's \<times> bool" and refresh :: "instant \<Rightarrow> string \<Rightarrow> 's \<Rightarrow> 's"
  assumes add_known: "known s (recordKey (h ! a)) \<Longrightarrow> add h now a s = (s, False)"
    and add_new: "\<not> known s (recordKey (h ! a)) \<Longrightarrow> snd (add h now a s)
      \<and> (\<forall>i. lookup (fst (add h now a s)) i = (if i = nr_ServerID (h ! a) then Some a else lookup s i))
      \<and> (\<forall>k. known (fst (add h now a s)) k = (k = recordKey (h ! a) \<or> known s k))"
    and refresh_same: "lookup (refresh now i s) = lookup s \<and> known (refresh now i s) = known s"
begin

text \<open>Adding is idempotent: the second time the record is a duplicate.\<close>

lemma add_twice: "add h now' a (fst (add h now a s)) = (fst (add h now a s), False)"
  using add_known [of "fst (add h now a s)" h a now'] add_new [of s h a now] add_known [of s h a now]
  by (cases "known s (recordKey (h ! a))") simp_all

lemma add_reports: "snd (add h now a s) \<longleftrightarrow> \<not> known s (recordKey (h ! a))"
  using add_known [of s h a now] add_new [of s h a now] by auto

end

lemma isSeen_put: "isSeen k (fst (store_put h now a s)) \<longleftrightarrow> k = recordKey (h ! a) \<or> isSeen k s"
  by (auto simp: store_put_def isSeen_def Let_def)

interpretation cache: record_cache "\<lambda>s i. store_get i s" "\<lambda>s k. isSeen k s" store_put store_heartbeat
proof
  show "isSeen (recordKey (h ! a)) s \<Longrightarrow> store_put h now a s = (s, False)" for h a s now
    by (simp add: store_put_def)
  show "\<not> isSeen (recordKey (h ! a)) s \<Longrightarrow> snd (store_put h now a s)
      \<and> (\<forall>i. store_get i (fst (store_put h now a s)) = (if i = nr_ServerID (h ! a) then Some a else store_get i s))
      \<and> (\<forall>k. isSeen k (fst (store_put h now a s)) = (k = recordKey (h ! a) \<or> isSeen k s))" for h a s now
    using isSeen_put [of _ h now a s] by (simp add: store_put_def store_get_def Let_def)
  show "(\<lambda>j. store_get j (store_heartbeat now i s)) = (\<lambda>j. store_get j s) \<and>
      (\<lambda>k. isSeen k (store_heartbeat now i s)) = (\<lambda>k. isSeen k s)" for now i s
    by (auto simp: store_heartbeat_def store_get_def isSeen_def fun_eq_iff option.map_comp comp_def)
qed

section \<open>Properties\<close>

text \<open>C19. A maintenance pass treats every record on its own, in whatever order it visits them: a record
  older than 24 hours is removed; one whose node was not heard of for more than 300 seconds
  becomes inactive; the others, and what counts as seen, stay as they are.\<close>

theorem expireAndCheck_pointwise:
  assumes "range_order (st_records s) ord" and "mwf (st_records s)"
  shows "(\<forall>i. mget (st_records (expireAndCheck h now ord s)) i =
      (case mget (st_records s) i of
         None \<Rightarrow> None
       | Some e \<Rightarrow>
           if now - tm_inst (nr_Timestamp (h ! en_Record e)) > 86400 * second then None
           else Some (e\<lparr>en_Active := en_Active e \<and> now - en_LastSeen e \<le> 300 * second\<rparr>)))
    \<and> (\<forall>k. isSeen k (expireAndCheck h now ord s) = isSeen k s)"
proof -
  have e: "expire_entry h now e =
      (if now - tm_inst (nr_Timestamp (h ! en_Record e)) > 86400 * second then None
       else Some (e\<lparr>en_Active := en_Active e \<and> now - en_LastSeen e \<le> 300 * second\<rparr>))" for e
    by (simp add: expire_entry_def recordExpiry_def livenessTimeout_def second_def not_less)
  have "distinct ord" using assms(1) by (simp add: range_order_def)
  then have "mget (st_records (expireAndCheck h now ord s)) i = Option.bind (mget (st_records s) i) (expire_entry h now)" for i
    using range_orderD(1) [OF assms, of i] by (auto simp: expireAndCheck_get)
  then show ?thesis by (auto simp: e isSeen_def split: option.split)
qed

theorem expireAndCheck_pointwise_witness:
  "mget (st_records (expireAndCheck [ex_record ''a'' 0] (400 * second) [''a'']
      (fst (store_put [ex_record ''a'' 0] 0 0 newStore)))) ''a'' =
    Some \<lparr>en_Record = 0, en_LastSeen = 0, en_Active = False\<rparr>"
proof -
  let ?s = "fst (store_put [ex_record ''a'' 0] 0 0 newStore)"
  have r: "st_records ?s = [(''a'', \<lparr>en_Record = 0, en_LastSeen = 0, en_Active = True\<rparr>)]"
    by (simp add: store_put_def isSeen_def newStore_def Let_def)
  show ?thesis
    using expireAndCheck_pointwise [of ?s "[''a'']" "[ex_record ''a'' 0]" "400 * second"]
    by (simp add: r range_order_def mwf_def second_def)
qed

text \<open>The store keeps the record that arrived last, not the newest one: a record with an earlier
  timestamp, even one past the expiry age, replaces a later one if its second was not seen
  before, and its node is active again.\<close>

theorem put_older_replaces:
  assumes "nr_ServerID (h ! a) = sid" and "mget (st_records s) sid = Some e"
    and "tm_inst (nr_Timestamp (h ! a)) < tm_inst (nr_Timestamp (h ! en_Record e))"
    and "\<not> isSeen (recordKey (h ! a)) s"
  shows "store_get sid (fst (store_put h now a s)) = Some a
    \<and> map_option en_Active (mget (st_records (fst (store_put h now a s))) sid) = Some True"
  using assms by (simp add: store_put_def store_get_def Let_def)

theorem put_older_replaces_witness:
  "store_get ''a'' (fst (store_put [ex_record ''a'' (90000 * second), ex_record ''a'' 0] 7 1
      (fst (store_put [ex_record ''a'' (90000 * second), ex_record ''a'' 0] 5 0 newStore)))) = Some 1"
proof -
  let ?h = "[ex_record ''a'' (90000 * second), ex_record ''a'' 0]"
  let ?s = "fst (store_put ?h 5 0 newStore)"
  have r: "mget (st_records ?s) ''a'' = Some \<lparr>en_Record = 0, en_LastSeen = 5, en_Active = True\<rparr>"
    by (simp add: store_put_def isSeen_def newStore_def Let_def)
  have "recordKey (?h ! 1) \<noteq> recordKey (?h ! 0)"
    unfolding recordKey_def by (simp add: time_UTC_def format_inj unix_second_def second_def)
  then have "\<not> isSeen (recordKey (?h ! 1)) ?s"
    unfolding isSeen_put by (simp add: isSeen_def newStore_def)
  then show ?thesis
    using put_older_replaces [OF _ r, of ?h 1 7] by (simp add: second_def)
qed

end
