(* ===== verification/Gossip_Node.thy ===== *)
theory Gossip_Node
  imports Gossip_Store
begin

text \<open>
  \<^verbatim>\<open>camo-gossip/server.go\<close>, \<^verbatim>\<open>heartbeat.go\<close>, \<^verbatim>\<open>api.go\<close>, \<^verbatim>\<open>config.go\<close> and \<^verbatim>\<open>main.go\<close>: the handlers of
  incoming gossip, the broadcaster, the socket API and the start of the agent.  Lines given to
  \<^verbatim>\<open>sendLine\<close> are collected in the state; whether the network delivers them is not modelled.
\<close>

section \<open>State\<close>

text \<open>
  What does not change while the agent runs: the signature scheme, the JSON coding, the key
  and the address of the node's own record.
\<close>

record gossip_env =
  ge_ed :: ed25519
  ge_js :: codec
  ge_key :: nodeKey
  ge_own :: addr

text \<open>
  \<open>gn_forwards\<close> are the forwarding goroutines that have not run yet, \<open>gn_pending\<close> the handlers that
  have checked a record and not yet stored it, \<open>gn_beats\<close> those that have verified a heartbeat (of
  a server, from an address) and not yet refreshed the entry, and \<open>gn_started\<close> is a history of all records whose
  forwarding was started.
\<close>

record gossip =
  gn_heap :: heap
  gn_store :: store
  gn_peers :: peerManager
  gn_sent :: "(string \<times> bytes) list"
  gn_forwards :: "(addr \<times> string) list"
  gn_pending :: "(NodeRecord \<times> string) list"
  gn_beats :: "(string \<times> string) list"
  gn_started :: "addr list"

section \<open>Sending\<close>

definition sendLine :: "string \<Rightarrow> bytes \<Rightarrow> gossip \<Rightarrow> gossip" where
  "sendLine a line s = s\<lparr>gn_sent := gn_sent s @ [(a, line @ [10])]\<rparr>"

definition encode_message :: "codec \<Rightarrow> string \<Rightarrow> goerr + bytes \<Rightarrow> goerr + bytes" where
  "encode_message js typ payload =
     (case payload of Inl e \<Rightarrow> Inl e | Inr p \<Rightarrow> js_message js \<lparr>ms_Type = typ, ms_Payload = p\<rparr>)"

definition forwardRecord :: "gossip_env \<Rightarrow> string list \<Rightarrow> NodeRecord \<Rightarrow> string \<Rightarrow> gossip \<Rightarrow> gossip" where
  "forwardRecord env ord r excludeAddr s =
     (case encode_message (ge_js env) msgNodeRecord (js_record (ge_js env) r) of
        Inl e \<Rightarrow> s
      | Inr encoded \<Rightarrow>
          fold (\<lambda>a s. if a = excludeAddr then s else sendLine a encoded s) (activeAddrs ord (gn_peers s)) s)"

section \<open>Incoming messages\<close>

text \<open>
  The checks of \<^verbatim>\<open>handleNodeRecord\<close>, up to the one whether the record was seen: \<open>None\<close> when the
  payload is dropped.
\<close>

definition check_record :: "gossip_env \<Rightarrow> bytes \<Rightarrow> gossip \<Rightarrow> NodeRecord option go" where
  "check_record env payload s =
     (case un_record (ge_js env) payload of
        Inl e \<Rightarrow> Ret None
      | Inr r \<Rightarrow>
          if nr_ServerID r = serverID (ge_key env) then Ret None
          else bind_go (verifyRecord (ge_ed env) (ge_js env) r) (\<lambda>(r, err).
            if err \<noteq> None then Ret None
            else if isSeen (recordKey r) (gn_store s) then Ret None
            else Ret (Some r)))"

text \<open>The rest of \<^verbatim>\<open>handleNodeRecord\<close>: storing, and starting the forwarding goroutine.\<close>

definition store_record :: "instant \<Rightarrow> NodeRecord \<Rightarrow> string \<Rightarrow> gossip \<Rightarrow> gossip" where
  "store_record now r fromAddr s =
     (let (h, a) = new_record r (gn_heap s); (st, new) = store_put h now a (gn_store s)
      in if \<not> new then s
         else s\<lparr>gn_heap := h, gn_store := st, gn_forwards := gn_forwards s @ [(a, fromAddr)],
                gn_started := gn_started s @ [a]\<rparr>)"

definition handleNodeRecord :: "gossip_env \<Rightarrow> instant \<Rightarrow> bytes \<Rightarrow> string \<Rightarrow> gossip \<Rightarrow> gossip go" where
  "handleNodeRecord env now payload fromAddr s =
     bind_go (check_record env payload s) (\<lambda>res.
       case res of None \<Rightarrow> Ret s | Some r \<Rightarrow> Ret (store_record now r fromAddr s))"

text \<open>\<^verbatim>\<open>handleHeartbeat\<close>: looking up and verifying, with the server to refresh as the result, and refreshing.\<close>

definition check_heartbeat :: "gossip_env \<Rightarrow> bytes \<Rightarrow> gossip \<Rightarrow> string option go" where
  "check_heartbeat env payload s =
     (case un_heartbeat (ge_js env) payload of
        Inl e \<Rightarrow> Ret None
      | Inr h \<Rightarrow>
          (case store_get (hb_ServerID h) (gn_store s) of
             None \<Rightarrow> Ret None
           | Some a \<Rightarrow>
               bind_go (verifyHeartbeat (ge_ed env) (ge_js env) h (nr_ServerID (gn_heap s ! a))) (\<lambda>(h, err).
                 if err \<noteq> None then Ret None else Ret (Some (hb_ServerID h)))))"

definition refresh_heartbeat :: "instant \<Rightarrow> string \<Rightarrow> string \<Rightarrow> gossip \<Rightarrow> gossip" where
  "refresh_heartbeat now sid fromAddr s =
     s\<lparr>gn_store := store_heartbeat now sid (gn_store s), gn_peers := peer_seen now fromAddr (gn_peers s)\<rparr>"

definition handleHeartbeat :: "gossip_env \<Rightarrow> instant \<Rightarrow> bytes \<Rightarrow> string \<Rightarrow> gossip \<Rightarrow> gossip go" where
  "handleHeartbeat env now payload fromAddr s =
     bind_go (check_heartbeat env payload s) (\<lambda>res.
       case res of None \<Rightarrow> Ret s | Some sid \<Rightarrow> Ret (refresh_heartbeat now sid fromAddr s))"

definition handle_gossip_line :: "gossip_env \<Rightarrow> instant \<Rightarrow> string \<Rightarrow> bytes \<Rightarrow> gossip \<Rightarrow> gossip go" where
  "handle_gossip_line env now remoteAddr line s =
     (case un_message (ge_js env) line of
        Inl e \<Rightarrow> Ret s
      | Inr msg \<Rightarrow>
          if ms_Type msg = msgNodeRecord then handleNodeRecord env now (ms_Payload msg) remoteAddr s
          else if ms_Type msg = msgHeartbeat then handleHeartbeat env now (ms_Payload msg) remoteAddr s
          else Ret s)"

text \<open>A connection served without interruption; each line comes with the time it is handled.\<close>

fun gossip_lines :: "gossip_env \<Rightarrow> string \<Rightarrow> (instant \<times> bytes) list \<Rightarrow> gossip \<Rightarrow> gossip go" where
  "gossip_lines env remoteAddr [] s = Ret s"
| "gossip_lines env remoteAddr ((now, line) # rest) s =
     bind_go (handle_gossip_line env now remoteAddr line s) (gossip_lines env remoteAddr rest)"

definition gossip_connect :: "instant \<Rightarrow> string \<Rightarrow> gossip \<Rightarrow> gossip" where
  "gossip_connect now remoteAddr s =
     s\<lparr>gn_peers := peer_seen now remoteAddr (peer_add now remoteAddr (gn_peers s))\<rparr>"

definition handleConn_gossip :: "gossip_env \<Rightarrow> instant \<Rightarrow> string \<Rightarrow> (instant \<times> bytes) list \<Rightarrow> gossip \<Rightarrow> gossip go" where
  "handleConn_gossip env now remoteAddr lines s = gossip_lines env remoteAddr lines (gossip_connect now remoteAddr s)"

section \<open>Broadcaster\<close>

definition heartbeatInterval :: duration where "heartbeatInterval = 60 * second"
definition expiryCheckInterval :: duration where "expiryCheckInterval = 60 * second"
definition announceInterval :: duration where "announceInterval = 6 * 3600 * second"

definition sendHeartbeat :: "gossip_env \<Rightarrow> instant \<Rightarrow> string list \<Rightarrow> gossip \<Rightarrow> gossip go" where
  "sendHeartbeat env now ord s =
     (let h = \<lparr>hb_ServerID = serverID (ge_key env), hb_Timestamp = \<lparr>tm_inst = now, tm_offset = 0\<rparr>,
               hb_ActiveCircuits = 0, hb_SIMPoolAvailable = 0, hb_Signature = []\<rparr>
      in bind_go (signHeartbeat (ge_ed env) (ge_js env) h (ge_key env)) (\<lambda>(h, err).
           if err \<noteq> None then Ret s
           else (case encode_message (ge_js env) msgHeartbeat (js_heartbeat (ge_js env) h) of
               Inl e \<Rightarrow> Ret s
             | Inr encoded \<Rightarrow> Ret (fold (\<lambda>a. sendLine a encoded) (activeAddrs ord (gn_peers s)) s))))"

text \<open>The own record is changed in place; the store's entry points to the same object.\<close>

definition announce :: "gossip_env \<Rightarrow> instant \<Rightarrow> string list \<Rightarrow> gossip \<Rightarrow> gossip go" where
  "announce env now ord s =
     (let r = (gn_heap s ! ge_own env)\<lparr>nr_Timestamp := \<lparr>tm_inst = now, tm_offset = 0\<rparr>\<rparr>
      in bind_go (signRecord (ge_ed env) (ge_js env) r (ge_key env)) (\<lambda>(r', err).
           let s' = s\<lparr>gn_heap := (gn_heap s)[ge_own env := r']\<rparr>
           in if err \<noteq> None then Ret s'
              else (case encode_message (ge_js env) msgNodeRecord (js_record (ge_js env) r') of
                  Inl e \<Rightarrow> Ret s'
                | Inr encoded \<Rightarrow> Ret (fold (\<lambda>a. sendLine a encoded) (activeAddrs ord (gn_peers s')) s'))))"

section \<open>Configuration and start\<close>

record gossipConfig =
  gc_ListenAddr :: string
  gc_WireGuardAddr :: string
  gc_GTPAddr :: string
  gc_BootstrapPeers :: "string list"
  gc_DataDir :: string
  gc_Regions :: "string list"
  gc_Jurisdictions :: "string list"
  gc_ExitNode :: bool
  gc_MaxCircuits :: int
  gc_WireGuardPubKey :: string

definition defaultConfig :: gossipConfig where
  "defaultConfig = \<lparr>gc_ListenAddr = ''0.0.0.0:7946'', gc_WireGuardAddr = [], gc_GTPAddr = [],
     gc_BootstrapPeers = [], gc_DataDir = ''/var/lib/camo'', gc_Regions = [], gc_Jurisdictions = [],
     gc_ExitNode = False, gc_MaxCircuits = 100, gc_WireGuardPubKey = []\<rparr>"

definition loadConfig :: "(bytes \<Rightarrow> gossipConfig \<Rightarrow> gossipConfig \<times> goerr option) \<Rightarrow> read_result \<Rightarrow> goerr + gossipConfig" where
  "loadConfig unmarshal file =
     (case file of
        ReadNotExist e \<Rightarrow> Inl e
      | ReadError e \<Rightarrow> Inl e
      | ReadOK data \<Rightarrow>
          (case unmarshal data defaultConfig of
             (cfg, Some e) \<Rightarrow> Inl e
           | (cfg, None) \<Rightarrow> Inr cfg))"

definition own_record :: "gossipConfig \<Rightarrow> nodeKey \<Rightarrow> instant \<Rightarrow> NodeRecord" where
  "own_record cfg k now =
     \<lparr>nr_Version = protocolVersion, nr_ServerID = serverID k, nr_WireGuardKey = gc_WireGuardPubKey cfg,
      nr_Endpoints = \<lparr>ep_WireGuard = gc_WireGuardAddr cfg, ep_GTP = gc_GTPAddr cfg\<rparr>,
      nr_Capabilities = \<lparr>ca_SIMPoolSize = 0, ca_Regions = gc_Regions cfg, ca_Jurisdictions = gc_Jurisdictions cfg,
        ca_Uptime30d = Fin 1 0, ca_ExitNode = gc_ExitNode cfg, ca_MaxCircuits = gc_MaxCircuits cfg\<rparr>,
      nr_Timestamp = \<lparr>tm_inst = now, tm_offset = 0\<rparr>, nr_Signature = []\<rparr>"

text \<open>
  The start of \<^verbatim>\<open>main\<close> after the key is loaded: sign, store, and announce to the bootstrap peers.
  An error of signing ends the program (\<open>None\<close>); errors of the coding are ignored, the line is
  then empty.
\<close>

definition gossip_start :: "gossip_env \<Rightarrow> gossipConfig \<Rightarrow> instant \<Rightarrow> instant \<Rightarrow> gossip option go" where
  "gossip_start env cfg now now' =
     bind_go (signRecord (ge_ed env) (ge_js env) (own_record cfg (ge_key env) now) (ge_key env)) (\<lambda>(r, err).
       if err \<noteq> None then Ret None
       else
         (let st = fst (store_put [r] now' 0 newStore);
              payload = (case js_record (ge_js env) r of Inl e \<Rightarrow> [] | Inr p \<Rightarrow> p);
              encoded = (case js_message (ge_js env) \<lparr>ms_Type = msgNodeRecord, ms_Payload = payload\<rparr> of
                           Inl e \<Rightarrow> [] | Inr b \<Rightarrow> b);
              s = \<lparr>gn_heap = [r], gn_store = st, gn_peers = newPeerManager now' (gc_BootstrapPeers cfg),
                   gn_sent = [], gn_forwards = [], gn_pending = [], gn_beats = [], gn_started = []\<rparr>
          in Ret (Some (fold (\<lambda>a. sendLine a encoded) (gc_BootstrapPeers cfg) s))))"

section \<open>API\<close>

record apiRequest =
  areq_Command :: string
  areq_ServerID :: string

record apiResponse =
  aresp_Status :: string
  aresp_Command :: string
  aresp_Records :: "NodeRecord list"
  aresp_Record :: "NodeRecord option"
  aresp_Message :: string

definition api_resp0 :: apiResponse where
  "api_resp0 = \<lparr>aresp_Status = [], aresp_Command = [], aresp_Records = [], aresp_Record = None, aresp_Message = []\<rparr>"

definition cmdListPeers :: string where "cmdListPeers = ''list_peers''"
definition cmdGetNode :: string where "cmdGetNode = ''get_node''"
definition cmdNodeInfo :: string where "cmdNodeInfo = ''node_info''"

definition handle_api_line :: "gossip_env \<Rightarrow> string list \<Rightarrow> goerr + apiRequest \<Rightarrow> gossip \<Rightarrow> apiResponse" where
  "handle_api_line env ord line s =
     (case line of
        Inl e \<Rightarrow> api_resp0\<lparr>aresp_Status := ''error'', aresp_Message := ''invalid request''\<rparr>
      | Inr req \<Rightarrow>
          if areq_Command req = cmdListPeers then
            api_resp0\<lparr>aresp_Status := ''ok'', aresp_Command := cmdListPeers,
              aresp_Records := map ((!) (gn_heap s)) (activeRecords ord (gn_store s))\<rparr>
          else if areq_Command req = cmdGetNode then
            (case store_get (areq_ServerID req) (gn_store s) of
               None \<Rightarrow> api_resp0\<lparr>aresp_Status := ''error'', aresp_Command := cmdGetNode, aresp_Message := ''not found''\<rparr>
             | Some a \<Rightarrow> api_resp0\<lparr>aresp_Status := ''ok'', aresp_Command := cmdGetNode,
                           aresp_Record := Some (gn_heap s ! a)\<rparr>)
          else if areq_Command req = cmdNodeInfo then
            api_resp0\<lparr>aresp_Status := ''ok'', aresp_Command := cmdNodeInfo,
              aresp_Record := Some (gn_heap s ! ge_own env)\<rparr>
          else api_resp0\<lparr>aresp_Status := ''error'', aresp_Command := areq_Command req,
                 aresp_Message := ''unknown command''\<rparr>)"

section \<open>The running agent\<close>

text \<open>
  Each rule is a critical section or a piece of a goroutine that touches no shared state in
  between.  Checking a record and storing it are separate steps, so handlers for the same
  record may overtake each other, and so are verifying a heartbeat and refreshing the entry.
  A panic ends the process and has no rule.
\<close>

inductive gossip_step :: "gossip_env \<Rightarrow> gossip \<Rightarrow> gossip \<Rightarrow> bool" for env where
  connect: "gossip_step env s (gossip_connect now remoteAddr s)"
| check: "check_record env payload s = Ret (Some r) \<Longrightarrow>
     gossip_step env s (s\<lparr>gn_pending := gn_pending s @ [(r, fromAddr)]\<rparr>)"
| insert: "gn_pending s = pre @ (r, fromAddr) # post \<Longrightarrow>
     gossip_step env s (store_record now r fromAddr (s\<lparr>gn_pending := pre @ post\<rparr>))"
| forward: "gn_forwards s = pre @ (a, fromAddr) # post \<Longrightarrow> range_order (gn_peers s) ord \<Longrightarrow>
     gossip_step env s (forwardRecord env ord (gn_heap s ! a) fromAddr (s\<lparr>gn_forwards := pre @ post\<rparr>))"
| heartbeat: "check_heartbeat env payload s = Ret (Some sid) \<Longrightarrow>
     gossip_step env s (s\<lparr>gn_beats := gn_beats s @ [(sid, fromAddr)]\<rparr>)"
| refresh: "gn_beats s = pre @ (sid, fromAddr) # post \<Longrightarrow>
     gossip_step env s (refresh_heartbeat now sid fromAddr (s\<lparr>gn_beats := pre @ post\<rparr>))"
| expire: "range_order (st_records (gn_store s)) ord \<Longrightarrow>
     gossip_step env s (s\<lparr>gn_store := expireAndCheck (gn_heap s) now ord (gn_store s)\<rparr>)"
| send_heartbeat: "range_order (gn_peers s) ord \<Longrightarrow> sendHeartbeat env now ord s = Ret s' \<Longrightarrow> gossip_step env s s'"
| reannounce: "range_order (gn_peers s) ord \<Longrightarrow> announce env now ord s = Ret s' \<Longrightarrow> gossip_step env s s'"

definition gossip_init :: "gossip_env \<Rightarrow> gossip \<Rightarrow> bool" where
  "gossip_init env s \<longleftrightarrow> ge_own env = 0 \<and> (\<exists>cfg now now'. gossip_start env cfg now now' = Ret (Some s))"

end
