(* ===== verification/Gossip_Invariant.thy ===== *)
theory Gossip_Invariant
  imports Gossip_Node
begin

text \<open>
  What holds in every state of a running gossip agent: stored records are authentic, records
  are forwarded once, peers stay active, heartbeats do not panic; and what an attacker can do.
\<close>

section \<open>Frames\<close>

text \<open>A record that may enter the store: signed by the server it names, and not the node itself.\<close>

definition authentic :: "gossip_env \<Rightarrow> NodeRecord \<Rightarrow> bool" where
  "authentic env r \<longleftrightarrow> verifyRecord (ge_ed env) (ge_js env) r = Ret (r, None) \<and> nr_ServerID r \<noteq> serverID (ge_key env)"

lemma sendLine_frame [simp]:
  "gn_heap (sendLine a l s) = gn_heap s" "gn_store (sendLine a l s) = gn_store s"
  "gn_peers (sendLine a l s) = gn_peers s" "gn_forwards (sendLine a l s) = gn_forwards s"
  "gn_pending (sendLine a l s) = gn_pending s" "gn_beats (sendLine a l s) = gn_beats s" "gn_started (sendLine a l s) = gn_started s"
  by (simp_all add: sendLine_def)

text \<open>Sending changes nothing but the collected lines.\<close>

definition only_sent :: "gossip \<Rightarrow> gossip \<Rightarrow> bool" where
  "only_sent s t \<longleftrightarrow> t = s\<lparr>gn_sent := gn_sent t\<rparr>"

lemma only_sent_refl [simp]: "only_sent s s"
  by (simp add: only_sent_def)

lemma only_sent_trans: "only_sent s t \<Longrightarrow> only_sent t u \<Longrightarrow> only_sent s u"
  by (cases s, cases t, cases u) (simp add: only_sent_def)

lemma only_sent_fields:
  "only_sent s t \<Longrightarrow> gn_heap t = gn_heap s \<and> gn_store t = gn_store s \<and> gn_peers t = gn_peers s
    \<and> gn_forwards t = gn_forwards s \<and> gn_pending t = gn_pending s \<and> gn_started t = gn_started s"
  by (cases s, cases t) (simp add: only_sent_def)

lemma only_sent_beats: "only_sent s t \<Longrightarrow> gn_beats t = gn_beats s"
  by (cases s, cases t) (simp add: only_sent_def)

lemma only_sent_sendLine: "only_sent s (sendLine a l s)"
  by (simp add: only_sent_def sendLine_def)

lemma only_sent_fold:
  assumes "\<And>a s. only_sent s (f a s)"
  shows "only_sent s (fold f as s)"
proof (induction as arbitrary: s)
  case (Cons a as)
  from only_sent_trans [OF assms Cons] show ?case by simp
qed simp

lemma only_sent_forward: "only_sent s (forwardRecord env ord r from s)"
  unfolding forwardRecord_def
  by (auto split: sum.split intro!: only_sent_fold only_sent_sendLine)

lemma only_sent_heartbeat: "sendHeartbeat env now ord s = Ret s' \<Longrightarrow> only_sent s s'"
  by (auto simp: sendHeartbeat_def Let_def bind_go_Ret_iff split: prod.splits if_splits sum.splits
      intro!: only_sent_fold only_sent_sendLine)

text \<open>An announcement replaces the own record in the heap, keeping its server, and sends.\<close>

lemma signRecord_server: "signRecord ed js r k = Ret (r', err) \<Longrightarrow> nr_ServerID r' = nr_ServerID r \<and> nr_Timestamp r' = nr_Timestamp r"
  by (auto simp: signRecord_def Let_def bind_go_Ret_iff split: sum.splits)

lemma announce_frame:
  assumes "announce env now ord s = Ret s'"
  obtains r' where "only_sent (s\<lparr>gn_heap := (gn_heap s)[ge_own env := r']\<rparr>) s'"
    and "nr_ServerID r' = nr_ServerID (gn_heap s ! ge_own env)" and "tm_inst (nr_Timestamp r') = now"
proof -
  let ?r = "(gn_heap s ! ge_own env)\<lparr>nr_Timestamp := \<lparr>tm_inst = now, tm_offset = 0\<rparr>\<rparr>"
  obtain r' err where sg: "signRecord (ge_ed env) (ge_js env) ?r (ge_key env) = Ret (r', err)"
    using assms by (auto simp: announce_def Let_def bind_go_Ret_iff)
  have "only_sent (s\<lparr>gn_heap := (gn_heap s)[ge_own env := r']\<rparr>) s'"
    using assms sg by (auto simp: announce_def Let_def split: if_splits sum.splits intro!: only_sent_fold only_sent_sendLine)
  then show thesis using that signRecord_server [OF sg] by simp
qed

section \<open>The invariant\<close>

definition gossip_inv :: "gossip_env \<Rightarrow> gossip \<Rightarrow> bool" where
  "gossip_inv env s \<longleftrightarrow>
     mwf (st_records (gn_store s)) \<and> peers_inv (gn_peers s)
     \<and> ge_own env < length (gn_heap s) \<and> nr_ServerID (gn_heap s ! ge_own env) = serverID (ge_key env)
     \<and> (\<forall>a < length (gn_heap s). a \<noteq> ge_own env \<longrightarrow> authentic env (gn_heap s ! a))
     \<and> (\<forall>i e. mget (st_records (gn_store s)) i = Some e \<longrightarrow>
          en_Record e < length (gn_heap s) \<and> nr_ServerID (gn_heap s ! en_Record e) = i)
     \<and> (\<forall>(r, a) \<in> set (gn_pending s). authentic env r)
     \<and> (\<forall>a \<in> set (gn_started s). a < length (gn_heap s) \<and> a \<noteq> ge_own env
          \<and> isSeen (recordKey (gn_heap s ! a)) (gn_store s))
     \<and> distinct (map (\<lambda>a. recordKey (gn_heap s ! a)) (gn_started s))
     \<and> set (map fst (gn_forwards s)) \<subseteq> set (gn_started s)"

lemma gossip_invD:
  assumes "gossip_inv env s"
  shows "mwf (st_records (gn_store s))" and "peers_inv (gn_peers s)"
    and "ge_own env < length (gn_heap s)" and "nr_ServerID (gn_heap s ! ge_own env) = serverID (ge_key env)"
    and "a < length (gn_heap s) \<Longrightarrow> a \<noteq> ge_own env \<Longrightarrow> authentic env (gn_heap s ! a)"
    and "mget (st_records (gn_store s)) i = Some e \<Longrightarrow> en_Record e < length (gn_heap s)"
    and "mget (st_records (gn_store s)) i = Some e \<Longrightarrow> nr_ServerID (gn_heap s ! en_Record e) = i"
    and "(r, f) \<in> set (gn_pending s) \<Longrightarrow> authentic env r"
    and "b \<in> set (gn_started s) \<Longrightarrow> b < length (gn_heap s) \<and> b \<noteq> ge_own env
          \<and> isSeen (recordKey (gn_heap s ! b)) (gn_store s)"
    and "distinct (map (\<lambda>a. recordKey (gn_heap s ! a)) (gn_started s))"
    and "set (map fst (gn_forwards s)) \<subseteq> set (gn_started s)"
  using assms unfolding gossip_inv_def by (simp_all add: split_beta) fastforce+

lemma check_record_authentic: "check_record env payload s = Ret (Some r) \<Longrightarrow> authentic env r"
proof -
  assume c: "check_record env payload s = Ret (Some r)"
  then obtain r0 where u: "un_record (ge_js env) payload = Inr r0" and n: "nr_ServerID r0 \<noteq> serverID (ge_key env)"
    by (auto simp: check_record_def split: sum.splits if_splits)
  with c obtain r1 err where v: "verifyRecord (ge_ed env) (ge_js env) r0 = Ret (r1, err)"
    by (auto simp: check_record_def bind_go_Ret_iff)
  with c u n have "err = None" "r1 = r"
    by (auto simp: check_record_def split: if_splits)
  with v verifyRecord_object [OF v] n show ?thesis by (simp add: authentic_def)
qed

text \<open>Changes that leave the heap, the pending handlers and the histories alone.\<close>

lemma gossip_inv_store:
  assumes "gossip_inv env s" and "mwf (st_records st)"
    and "\<And>i e. mget (st_records st) i = Some e \<Longrightarrow> \<exists>e'. mget (st_records (gn_store s)) i = Some e' \<and> en_Record e = en_Record e'"
    and "\<And>k. isSeen k st = isSeen k (gn_store s)" and "peers_inv pm"
  shows "gossip_inv env (s\<lparr>gn_store := st, gn_peers := pm\<rparr>)"
proof -
  note inv = gossip_invD [OF assms(1)]
  have "en_Record e < length (gn_heap s) \<and> nr_ServerID (gn_heap s ! en_Record e) = i"
    if "mget (st_records st) i = Some e" for i e
    using assms(3) [OF that] inv(6,7) by metis
  then show ?thesis
    using assms(1,2,4,5) unfolding gossip_inv_def by simp
qed

lemma gossip_inv_only_sent: "gossip_inv env s \<Longrightarrow> only_sent s t \<Longrightarrow> gossip_inv env t"
  unfolding gossip_inv_def by (drule only_sent_fields) simp

text \<open>Storing a new record, field by field.\<close>

lemma store_record_new:
  fixes now fromAddr
  assumes "\<not> isSeen (recordKey r) (gn_store s)"
  defines "t \<equiv> store_record now r fromAddr s"
  shows "gn_heap t = gn_heap s @ [r]"
    and "st_records (gn_store t) = mput (nr_ServerID r)
      \<lparr>en_Record = length (gn_heap s), en_LastSeen = now, en_Active = True\<rparr> (st_records (gn_store s))"
    and "gn_forwards t = gn_forwards s @ [(length (gn_heap s), fromAddr)]"
    and "gn_started t = gn_started s @ [length (gn_heap s)]"
    and "gn_peers t = gn_peers s" and "gn_pending t = gn_pending s"
    and "isSeen k (gn_store t) \<longleftrightarrow> k = recordKey r \<or> isSeen k (gn_store s)"
  using assms(1) by (simp_all add: t_def store_record_def new_record_def store_put_def Let_def isSeen_def)

lemma gossip_inv_store_record:
  assumes "gossip_inv env s" and "authentic env r"
  shows "gossip_inv env (store_record now r from s)"
proof (cases "isSeen (recordKey r) (gn_store s)")
  case True
  then show ?thesis using assms(1) by (simp add: store_record_def new_record_def store_put_def Let_def)
next
  case False
  note inv = gossip_invD [OF assms(1)]
  let ?h = "gn_heap s @ [r]" and ?n = "length (gn_heap s)"
  have old: "?h ! a = gn_heap s ! a" if "a < ?n" for a using that by (simp add: nth_append)
  let ?e = "\<lparr>en_Record = ?n, en_LastSeen = now, en_Active = True\<rparr>"
  define t where "t = store_record now r from s"
  note t = store_record_new [OF False, where now = now and fromAddr = "from", folded t_def]
  have keys: "map (\<lambda>a. recordKey (?h ! a)) (gn_started s) = map (\<lambda>a. recordKey (gn_heap s ! a)) (gn_started s)"
    using inv(9) old by simp
  have "recordKey r \<notin> set (map (\<lambda>a. recordKey (gn_heap s ! a)) (gn_started s))"
    using inv(9) False by auto
  then have d: "distinct (map (\<lambda>a. recordKey (?h ! a)) (gn_started s @ [?n]))"
    using inv(10) unfolding map_append keys by simp
  have entries: "en_Record e < Suc ?n \<and> nr_ServerID (?h ! en_Record e) = i"
    if "mget (mput (nr_ServerID r) ?e (st_records (gn_store s))) i = Some e" for i e
    using that inv(6,7) [of i e] old by (auto split: if_splits)
  have heap: "authentic env (?h ! a)" if "a < Suc ?n" "a \<noteq> ge_own env" for a
    using that inv(5) [of a] assms(2) old by (cases "a = ?n") simp_all
  have started: "a < Suc ?n \<and> a \<noteq> ge_own env \<and> (recordKey (?h ! a) = recordKey r \<or> isSeen (recordKey (?h ! a)) (gn_store s))"
    if "a \<in> set (gn_started s @ [?n])" for a
    using that inv(3) inv(9) [of a] old [of a] by (auto simp: less_Suc_eq)
  show ?thesis
    unfolding t_def [symmetric] gossip_inv_def t using inv(1,2,3,4,8,11) old d heap entries started by auto
qed


lemma gossip_inv_announce:
  assumes "gossip_inv env s" and "announce env now ord s = Ret s'"
  shows "gossip_inv env s'"
proof -
  obtain r' where r': "only_sent (s\<lparr>gn_heap := (gn_heap s)[ge_own env := r']\<rparr>) s'"
    "nr_ServerID r' = nr_ServerID (gn_heap s ! ge_own env)"
    using announce_frame [OF assms(2)] .
  let ?h = "(gn_heap s)[ge_own env := r']"
  note inv = gossip_invD [OF assms(1)]
  have other: "?h ! a = gn_heap s ! a" if "a \<noteq> ge_own env" for a using that by simp
  have sid: "nr_ServerID (?h ! a) = nr_ServerID (gn_heap s ! a)" for a
    using r'(2) inv(3) by (cases "a = ge_own env") simp_all
  have keys: "map (\<lambda>a. recordKey (?h ! a)) (gn_started s) = map (\<lambda>a. recordKey (gn_heap s ! a)) (gn_started s)"
  proof (rule map_cong [OF refl])
    fix a assume "a \<in> set (gn_started s)"
    then have "a \<noteq> ge_own env" using inv(9) by blast
    then show "recordKey (?h ! a) = recordKey (gn_heap s ! a)" by (simp add: other)
  qed
  have started: "isSeen (recordKey (?h ! a)) (gn_store s)" if "a \<in> set (gn_started s)" for a
    using inv(9) [OF that] by (simp add: other)
  define t where "t = s\<lparr>gn_heap := ?h\<rparr>"
  have t: "gn_heap t = ?h" "gn_store t = gn_store s" "gn_peers t = gn_peers s" "gn_forwards t = gn_forwards s"
    "gn_pending t = gn_pending s" "gn_started t = gn_started s" by (simp_all add: t_def)
  have heap: "authentic env (?h ! a)" if "a < length (gn_heap s)" "a \<noteq> ge_own env" for a
    using inv(5) [OF that] that(2) by (simp add: other)
  have "gossip_inv env (s\<lparr>gn_heap := ?h\<rparr>)"
    unfolding t_def [symmetric] gossip_inv_def t length_list_update keys sid
    using inv(1-4,6-8,10,11) inv(9) heap started by blast
  then show ?thesis using r'(1) by (rule gossip_inv_only_sent)
qed

lemma gossip_inv_refresh:
  assumes "gossip_inv env s"
  shows "gossip_inv env (refresh_heartbeat now sid from s)"
  unfolding refresh_heartbeat_def
proof (rule gossip_inv_store [OF assms])
  show "mwf (st_records (store_heartbeat now sid (gn_store s)))"
    using gossip_invD(1) [OF assms] by (simp add: store_heartbeat_def)
  show "\<exists>e'. mget (st_records (gn_store s)) j = Some e' \<and> en_Record e = en_Record e'"
    if "mget (st_records (store_heartbeat now sid (gn_store s))) j = Some e" for j e
    using that by (auto simp: store_heartbeat_def split: if_splits)
  show "isSeen k (store_heartbeat now sid (gn_store s)) = isSeen k (gn_store s)" for k
    by (simp add: store_heartbeat_def isSeen_def)
  show "peers_inv (peer_seen now from (gn_peers s))"
    using gossip_invD(2) [OF assms] by (rule peers_inv_seen)
qed

lemma gossip_inv_beats: "gossip_inv env s \<Longrightarrow> gossip_inv env (s\<lparr>gn_beats := bs\<rparr>)"
  by (simp add: gossip_inv_def)

lemma gossip_inv_expire:
  assumes "gossip_inv env s" and "range_order (st_records (gn_store s)) ord"
  shows "gossip_inv env (s\<lparr>gn_store := expireAndCheck (gn_heap s) now ord (gn_store s)\<rparr>)"
proof -
  note wf = gossip_invD(1) [OF assms(1)]
  have d: "distinct ord" using assms(2) by (simp add: range_order_def)
  have "gossip_inv env (s\<lparr>gn_store := expireAndCheck (gn_heap s) now ord (gn_store s), gn_peers := gn_peers s\<rparr>)"
  proof (rule gossip_inv_store [OF assms(1)])
    show "mwf (st_records (expireAndCheck (gn_heap s) now ord (gn_store s)))" using wf by (rule mwf_expire)
    show "\<exists>e'. mget (st_records (gn_store s)) i = Some e' \<and> en_Record e = en_Record e'"
      if "mget (st_records (expireAndCheck (gn_heap s) now ord (gn_store s))) i = Some e" for i e
      using that unfolding expireAndCheck_get [OF d]
      by (auto simp: expire_entry_def bind_eq_Some_conv split: if_splits)
    show "isSeen k (expireAndCheck (gn_heap s) now ord (gn_store s)) = isSeen k (gn_store s)" for k
      by (simp add: isSeen_def)
    show "peers_inv (gn_peers s)" by (rule gossip_invD(2) [OF assms(1)])
  qed
  then show ?thesis by simp
qed

lemma gossip_inv_connect: "gossip_inv env s \<Longrightarrow> gossip_inv env (gossip_connect now a s)"
  unfolding gossip_inv_def gossip_connect_def by (simp add: peers_inv_add peers_inv_seen)

lemma gossip_start_shape:
  assumes "gossip_start env cfg now now' = Ret (Some s)"
  obtains r where "signRecord (ge_ed env) (ge_js env) (own_record cfg (ge_key env) now) (ge_key env) = Ret (r, None)"
    and "only_sent \<lparr>gn_heap = [r], gn_store = fst (store_put [r] now' 0 newStore),
        gn_peers = newPeerManager now' (gc_BootstrapPeers cfg), gn_sent = [], gn_forwards = [], gn_pending = [], gn_beats = [],
        gn_started = []\<rparr> s"
  using assms by (auto simp: gossip_start_def bind_go_Ret_iff Let_def split: if_splits intro!: only_sent_fold only_sent_sendLine)

lemma gossip_inv_start:
  assumes "gossip_init env s"
  shows "gossip_inv env s"
proof -
  obtain cfg now now' where own: "ge_own env = 0" and st: "gossip_start env cfg now now' = Ret (Some s)"
    using assms by (auto simp: gossip_init_def)
  obtain r where sg: "signRecord (ge_ed env) (ge_js env) (own_record cfg (ge_key env) now) (ge_key env) = Ret (r, None)"
    and s: "only_sent \<lparr>gn_heap = [r], gn_store = fst (store_put [r] now' 0 newStore),
        gn_peers = newPeerManager now' (gc_BootstrapPeers cfg), gn_sent = [], gn_forwards = [], gn_pending = [], gn_beats = [],
        gn_started = []\<rparr> s"
    using gossip_start_shape [OF st] .
  have r: "nr_ServerID r = serverID (ge_key env)"
    using signRecord_server [OF sg] by (simp add: own_record_def)
  have "gossip_inv env \<lparr>gn_heap = [r], gn_store = fst (store_put [r] now' 0 newStore),
        gn_peers = newPeerManager now' (gc_BootstrapPeers cfg), gn_sent = [], gn_forwards = [], gn_pending = [], gn_beats = [],
        gn_started = []\<rparr>"
    by (simp add: gossip_inv_def own r store_put_def newStore_def isSeen_def Let_def mwf_def peers_inv_new)
  then show ?thesis using s by (rule gossip_inv_only_sent)
qed

interpretation agent: invariant_system "gossip_init env" "gossip_step env" "gossip_inv env" for env
proof
  fix s t assume s: "gossip_inv env s" and "gossip_step env s t"
  from this(2) show "gossip_inv env t"
  proof cases
    case (connect now a)
    then show ?thesis using gossip_inv_connect [OF s] by simp
  next
    case (check payload r fr)
    then show ?thesis
      using s check_record_authentic [OF check(2)] unfolding gossip_inv_def by auto
  next
    case (insert pre r fr post now)
    have "gossip_inv env (s\<lparr>gn_pending := pre @ post\<rparr>)" "authentic env r"
      using s insert(2) unfolding gossip_inv_def by auto
    then show ?thesis using gossip_inv_store_record insert(1) by simp
  next
    case (forward pre a fr post ord)
    have "gossip_inv env (s\<lparr>gn_forwards := pre @ post\<rparr>)"
      using s forward(2) unfolding gossip_inv_def by auto
    then show ?thesis using gossip_inv_only_sent only_sent_forward forward(1) by metis
  next
    case (heartbeat payload sid fr)
    then show ?thesis using gossip_inv_beats [OF s] by simp
  next
    case (refresh pre sid fr post now)
    then show ?thesis using gossip_inv_refresh [OF gossip_inv_beats [OF s]] by simp
  next
    case (expire ord now)
    then show ?thesis using gossip_inv_expire [OF s] by simp
  next
    case (send_heartbeat now ord)
    then show ?thesis using gossip_inv_only_sent [OF s] only_sent_heartbeat by simp
  next
    case (reannounce now ord)
    then show ?thesis using gossip_inv_announce [OF s] by simp
  qed
qed (rule gossip_inv_start)


section \<open>Verification and panics\<close>

lemma verify_panic_iff:
  "(\<exists>m. verify ed sid sig msg = Panic m) \<longleftrightarrow>
     (\<exists>pub sg. DecodeString RawURLEncoding sid = Inr pub \<and> DecodeString StdEncoding sig = Inr sg \<and> length pub \<noteq> 32)"
  by (auto simp: verify_def ed25519_Verify_def split: sum.splits)

lemma authentic_key: "authentic env r \<Longrightarrow> \<exists>pub. DecodeString RawURLEncoding (nr_ServerID r) = Inr pub \<and> length pub = 32"
  by (auto simp: authentic_def verifyRecord_def verify_def ed25519_Verify_def Let_def
      split: if_splits sum.splits)

lemma store_get_server:
  assumes "gossip_inv env s" and "store_get i (gn_store s) = Some a"
  shows "a < length (gn_heap s)" and "nr_ServerID (gn_heap s ! a) = i"
  using assms gossip_invD(6,7) [OF assms(1)] by (auto simp: store_get_def)

text \<open>The handler of heartbeats verifies against identifiers of stored records, which decode to 32 bytes.\<close>

lemma heartbeat_returns:
  assumes inv: "gossip_inv env s" and "length (nk_PublicKey (ge_key env)) = 32"
  shows "\<exists>s'. handleHeartbeat env now payload fromAddr s = Ret s'"
proof (rule ccontr)
  assume "\<nexists>s'. handleHeartbeat env now payload fromAddr s = Ret s'"
  then obtain m where p: "handleHeartbeat env now payload fromAddr s = Panic m"
    by (cases "handleHeartbeat env now payload fromAddr s") auto
  from p obtain h a where a: "store_get (hb_ServerID h) (gn_store s) = Some a"
    and v: "verifyHeartbeat (ge_ed env) (ge_js env) h (nr_ServerID (gn_heap s ! a)) = Panic m"
    by (auto simp: handleHeartbeat_def check_heartbeat_def bind_go_Panic_iff split: sum.splits option.splits if_splits)
  from v obtain sig data where "verify (ge_ed env) (nr_ServerID (gn_heap s ! a)) sig data = Panic m"
    by (auto simp: verifyHeartbeat_def Let_def bind_go_Panic_iff split: sum.splits if_splits)
  then obtain pub where pub: "DecodeString RawURLEncoding (nr_ServerID (gn_heap s ! a)) = Inr pub" "length pub \<noteq> 32"
    using verify_panic_iff [of "ge_ed env"] by metis
  show False
  proof (cases "a = ge_own env")
    case True
    with pub gossip_invD(4) [OF inv] assms(2) show False by (simp add: serverID_def rawurl.roundtrip)
  next
    case False
    with authentic_key [OF gossip_invD(5) [OF inv store_get_server(1) [OF inv a]]] pub show False by auto
  qed
qed

text \<open>The records that make the handler panic: of another node, with a signature that decodes, and an
  identifier that decodes to another length than that of a public key.\<close>

definition deadly :: "gossip_env \<Rightarrow> bytes \<Rightarrow> bool" where
  "deadly env payload \<longleftrightarrow> (\<exists>r data pub sig. un_record (ge_js env) payload = Inr r \<and> nr_ServerID r \<noteq> serverID (ge_key env)
     \<and> nr_Signature r \<noteq> [] \<and> js_record (ge_js env) (r\<lparr>nr_Signature := []\<rparr>) = Inr data
     \<and> DecodeString RawURLEncoding (nr_ServerID r) = Inr pub \<and> length pub \<noteq> 32
     \<and> DecodeString StdEncoding (nr_Signature r) = Inr sig)"

lemma verify_Panic:
  "verify ed sid sig msg = Panic m \<longleftrightarrow> m = ''ed25519: bad public key length''
    \<and> (\<exists>pub sg. DecodeString RawURLEncoding sid = Inr pub \<and> DecodeString StdEncoding sig = Inr sg \<and> length pub \<noteq> 32)"
  by (auto simp: verify_def ed25519_Verify_def split: sum.splits)

lemma verifyRecord_Panic:
  "verifyRecord ed js r = Panic m \<longleftrightarrow> nr_Signature r \<noteq> [] \<and> m = ''ed25519: bad public key length''
    \<and> (\<exists>data. js_record js (r\<lparr>nr_Signature := []\<rparr>) = Inr data)
    \<and> (\<exists>pub sg. DecodeString RawURLEncoding (nr_ServerID r) = Inr pub \<and> DecodeString StdEncoding (nr_Signature r) = Inr sg
        \<and> length pub \<noteq> 32)"
  by (auto simp: verifyRecord_def Let_def bind_go_Panic_iff verify_Panic split: sum.splits)

lemma handleNodeRecord_Panic:
  "handleNodeRecord env now payload fromAddr s = Panic m \<longleftrightarrow> m = ''ed25519: bad public key length'' \<and> deadly env payload"
proof -
  have "handleNodeRecord env now payload fromAddr s = Panic m \<longleftrightarrow> check_record env payload s = Panic m"
    by (auto simp: handleNodeRecord_def bind_go_Panic_iff split: option.splits)
  also have "\<dots> \<longleftrightarrow> m = ''ed25519: bad public key length'' \<and> deadly env payload"
    by (auto simp: check_record_def bind_go_Panic_iff verifyRecord_Panic deadly_def split: sum.splits if_splits)
  finally show ?thesis .
qed

text \<open>A record that passes the checks can be stored at once.\<close>

lemma reachable_learn:
  assumes "reachable init (gossip_step env) s" and "check_record env payload s = Ret (Some r)"
  shows "reachable init (gossip_step env) (store_record now r fromAddr s)"
proof -
  let ?p = "s\<lparr>gn_pending := gn_pending s @ [(r, fromAddr)]\<rparr>"
  have "reachable init (gossip_step env) ?p"
    using reach_step [OF assms(1) gossip_step.check [OF assms(2)]] .
  moreover have "gossip_step env ?p (store_record now r fromAddr (?p\<lparr>gn_pending := gn_pending s @ []\<rparr>))"
    by (rule gossip_step.insert) simp
  ultimately show ?thesis using reach_step by fastforce
qed

section \<open>A small network\<close>

definition ex_key2 :: nodeKey where
  "ex_key2 = \<lparr>nk_PublicKey = replicate 32 9, nk_PrivateKey = replicate 64 9\<rparr>"

lemma ex_key2_pair: "ed_keypair ex_ed (nk_PublicKey ex_key2) (nk_PrivateKey ex_key2)"
  by (simp add: ex_ed_def ex_key2_def flip: replicate_add)

lemma ex_keys_differ: "serverID ex_key2 \<noteq> serverID ex_key"
proof
  assume "serverID ex_key2 = serverID ex_key"
  from serverID_inj [OF this] have "replicate 32 (9::byte) = replicate 32 7" by (simp add: ex_key2_def ex_key_def)
  then show False by (simp add: replicate_eq_replicate)
qed

text \<open>A node's signature over the coding of records, which the example coding maps to one byte.\<close>

definition ex_sig :: "nodeKey \<Rightarrow> string" where
  "ex_sig k = EncodeToString StdEncoding (ed_sign ex_ed (nk_PrivateKey k) [1])"

definition ex_signed :: NodeRecord where
  "ex_signed = (ex_record (serverID ex_key2) 5)\<lparr>nr_Signature := ex_sig ex_key2\<rparr>"

definition ex_net_js :: codec where
  "ex_net_js = ex_js\<lparr>un_record := (\<lambda>b. Inr ex_signed)\<rparr>"

definition ex_env :: gossip_env where
  "ex_env = \<lparr>ge_ed = ex_ed, ge_js = ex_net_js, ge_key = ex_key, ge_own = 0\<rparr>"

definition ex_own :: NodeRecord where
  "ex_own = (own_record defaultConfig ex_key 0)\<lparr>nr_Signature := ex_sig ex_key\<rparr>"

definition ex_start :: gossip where
  "ex_start = \<lparr>gn_heap = [ex_own], gn_store = fst (store_put [ex_own] 0 0 newStore), gn_peers = [],
     gn_sent = [], gn_forwards = [], gn_pending = [], gn_beats = [], gn_started = []\<rparr>"

definition ex_gossip :: gossip where
  "ex_gossip = store_record 6 ex_signed ''peer'' ex_start"

lemma ex_sig_facts:
  assumes "ed_keypair ex_ed (nk_PublicKey k) (nk_PrivateKey k)"
  shows "key_sign ex_ed k [1] = Ret (ex_sig k)" and "ex_sig k \<noteq> []" and "verify ex_ed (serverID k) (ex_sig k) [1] = Ret None"
proof -
  have "length (nk_PrivateKey k) = 64" using ex_ed_ok assms by (simp add: ed25519_ok_def)
  then show 1: "key_sign ex_ed k [1] = Ret (ex_sig k)" by (simp add: key_sign_def ed25519_Sign_def ex_sig_def)
  then show "ex_sig k \<noteq> []" "verify ex_ed (serverID k) (ex_sig k) [1] = Ret None"
    using verify_sign [OF ex_ed_ok assms, of "[1]"] by auto
qed

lemma ex_signed_verifies: "verifyRecord ex_ed ex_net_js ex_signed = Ret (ex_signed, None)"
  using ex_sig_facts(2,3) [OF ex_key2_pair]
  by (simp add: verifyRecord_def ex_signed_def ex_net_js_def ex_js_def Let_def)

lemma ex_starts: "gossip_start ex_env defaultConfig 0 0 = Ret (Some ex_start)"
  using ex_sig_facts(1) [OF ex_key_pair]
  by (simp add: gossip_start_def signRecord_def ex_env_def ex_net_js_def ex_js_def Let_def ex_own_def ex_start_def
      own_record_def defaultConfig_def newPeerManager_def)

lemma ex_init: "gossip_init ex_env ex_start"
  using ex_starts unfolding gossip_init_def by (auto simp: ex_env_def)

lemma ex_own_server [simp]: "nr_ServerID ex_own = serverID ex_key" "tm_inst (nr_Timestamp ex_own) = 0"
  by (simp_all add: ex_own_def own_record_def)

lemma ex_signed_server [simp]: "nr_ServerID ex_signed = serverID ex_key2"
  by (simp add: ex_signed_def)

lemma ex_signed_new: "\<not> isSeen (recordKey ex_signed) (gn_store ex_start)"
proof -
  have "recordKey ex_signed \<noteq> recordKey ex_own"
  proof
    assume "recordKey ex_signed = recordKey ex_own"
    then have "nr_ServerID ex_signed = nr_ServerID ex_own" unfolding recordKey_inj by simp
    with ex_keys_differ show False by simp
  qed
  then show ?thesis by (simp add: ex_start_def isSeen_put) (simp add: isSeen_def newStore_def)
qed

lemma ex_reachable: "reachable (gossip_init ex_env) (gossip_step ex_env) ex_gossip"
proof -
  have "check_record ex_env [] ex_start = Ret (Some ex_signed)"
    using ex_signed_verifies ex_keys_differ ex_signed_new
    by (simp add: check_record_def ex_env_def) (simp add: ex_net_js_def)
  then show ?thesis
    unfolding ex_gossip_def by (rule reachable_learn [OF reach_init [of "gossip_init ex_env", OF ex_init]])
qed

lemma ex_gossip_state:
  "gn_heap ex_gossip = [ex_own, ex_signed]" "gn_started ex_gossip = [1]"
  "st_records (gn_store ex_gossip) =
     [(serverID ex_key, \<lparr>en_Record = 0, en_LastSeen = 0, en_Active = True\<rparr>),
      (serverID ex_key2, \<lparr>en_Record = 1, en_LastSeen = 6, en_Active = True\<rparr>)]"
proof -
  have h: "gn_heap ex_start = [ex_own]" "gn_started ex_start = []" by (simp_all add: ex_start_def)
  have r: "st_records (gn_store ex_start) = [(serverID ex_key, \<lparr>en_Record = 0, en_LastSeen = 0, en_Active = True\<rparr>)]"
    by (simp add: ex_start_def store_put_def isSeen_def newStore_def Let_def)
  show "gn_heap ex_gossip = [ex_own, ex_signed]" "gn_started ex_gossip = [1]"
    "st_records (gn_store ex_gossip) =
     [(serverID ex_key, \<lparr>en_Record = 0, en_LastSeen = 0, en_Active = True\<rparr>),
      (serverID ex_key2, \<lparr>en_Record = 1, en_LastSeen = 6, en_Active = True\<rparr>)]"
    using ex_signed_new ex_keys_differ
    by (simp_all add: ex_gossip_def store_record_def new_record_def store_put_def h r Let_def)
qed


text \<open>A heartbeat of the other node, and a coding in which every heartbeat is this one.\<close>

definition ex_heartbeat :: Heartbeat where
  "ex_heartbeat = \<lparr>hb_ServerID = serverID ex_key2, hb_Timestamp = ex_time 0, hb_ActiveCircuits = 0,
     hb_SIMPoolAvailable = 0, hb_Signature = ex_sig ex_key2\<rparr>"

definition ex_hb_env :: gossip_env where
  "ex_hb_env = ex_env\<lparr>ge_js := ex_net_js\<lparr>un_heartbeat := (\<lambda>b. Inr ex_heartbeat), js_heartbeat := (\<lambda>h. Inr [1])\<rparr>\<rparr>"

lemma ex_hb_verifies:
  "verifyHeartbeat (ge_ed ex_hb_env) (ge_js ex_hb_env) ex_heartbeat (hb_ServerID ex_heartbeat) = Ret (ex_heartbeat, None)"
  using ex_sig_facts(2,3) [OF ex_key2_pair]
  by (simp add: verifyHeartbeat_def ex_hb_env_def ex_env_def ex_heartbeat_def Let_def)

lemma ex_hb_reachable: "reachable (gossip_init ex_hb_env) (gossip_step ex_hb_env) ex_gossip"
proof -
  have "gossip_start ex_hb_env defaultConfig 0 0 = Ret (Some ex_start)"
    using ex_sig_facts(1) [OF ex_key_pair]
    by (simp add: gossip_start_def signRecord_def ex_hb_env_def ex_env_def ex_net_js_def ex_js_def Let_def ex_own_def ex_start_def
        own_record_def defaultConfig_def newPeerManager_def)
  then have "gossip_init ex_hb_env ex_start" unfolding gossip_init_def by (auto simp: ex_hb_env_def ex_env_def)
  then have "reachable (gossip_init ex_hb_env) (gossip_step ex_hb_env) ex_start" by (rule reach_init)
  moreover have "verifyRecord ex_ed (ge_js ex_hb_env) ex_signed = verifyRecord ex_ed ex_net_js ex_signed"
    by (simp add: verifyRecord_def ex_hb_env_def)
  then have "check_record ex_hb_env [] ex_start = Ret (Some ex_signed)"
    using ex_signed_verifies ex_keys_differ ex_signed_new
    by (simp add: check_record_def) (simp add: ex_hb_env_def ex_env_def ex_net_js_def)
  ultimately show ?thesis unfolding ex_gossip_def by (rule reachable_learn)
qed

section \<open>Listed records\<close>

lemma list_peers_records:
  fixes sid
  assumes inv: "gossip_inv env s" and ord: "range_order (st_records (gn_store s)) ord"
  defines "rs \<equiv> aresp_Records (handle_api_line env ord (Inr \<lparr>areq_Command = cmdListPeers, areq_ServerID = sid\<rparr>) s)"
  shows "distinct (map nr_ServerID rs)"
    and "r \<in> set rs \<Longrightarrow> r \<in> set (gn_heap s)"
    and "r \<in> set rs \<Longrightarrow> nr_ServerID r \<noteq> serverID (ge_key env) \<Longrightarrow> authentic env r"
proof -
  let ?recs = "st_records (gn_store s)" and ?h = "gn_heap s"
  have wf: "mwf ?recs" using gossip_invD(1) [OF inv] .
  have ne: "mget ?recs i \<noteq> None" if "i \<in> set ord" for i using range_orderD(1) [OF ord wf] that by blast
  let ?ord = "filter (\<lambda>i. en_Active (the (mget ?recs i))) ord"
  have rs: "rs = map (\<lambda>i. ?h ! en_Record (the (mget ?recs i))) ?ord"
    by (simp add: rs_def handle_api_line_def activeRecords_def range_vals_map [OF ord] filter_map comp_def api_resp0_def)
  have sid: "nr_ServerID (?h ! en_Record (the (mget ?recs i))) = i" if "i \<in> set ord" for i
    using gossip_invD(7) [OF inv, of i] ne [OF that] by auto
  have "map nr_ServerID rs = ?ord"
    unfolding rs map_map using sid by (intro map_idI) simp
  then show "distinct (map nr_ServerID rs)" using ord by (simp add: range_order_def)
  assume "r \<in> set rs"
  then obtain i where i: "i \<in> set ord" "r = ?h ! en_Record (the (mget ?recs i))" by (auto simp: rs)
  obtain e where "mget ?recs i = Some e" using ne [OF i(1)] by auto
  with i(2) have e: "mget ?recs i = Some e" "r = ?h ! en_Record e" by simp_all
  then show "r \<in> set ?h" using gossip_invD(6) [OF inv e(1)] by simp
  assume other: "nr_ServerID r \<noteq> serverID (ge_key env)"
  have "en_Record e \<noteq> ge_own env" using gossip_invD(4) [OF inv] other e(2) by metis
  then show "authentic env r" using gossip_invD(5) [OF inv gossip_invD(6) [OF inv e(1)]] e(2) by blast
qed

text \<open>A signed record is accepted by every other node that has not seen it, stored as an active record
  under the sender's identifier, and scheduled for forwarding.\<close>

lemma record_accepted:
  assumes "ed25519_ok (ge_ed env)" and "ed_keypair (ge_ed env) (nk_PublicKey k) (nk_PrivateKey k)"
    and "serverID k \<noteq> serverID (ge_key env)" and "nr_ServerID r = serverID k"
    and "signRecord (ge_ed env) (ge_js env) r k = Ret (r', None)"
    and "un_record (ge_js env) payload = Inr r'"
    and "\<not> isSeen (recordKey r') (gn_store s)"
  shows "\<exists>t a. handleNodeRecord env now payload fromAddr s = Ret t
    \<and> mget (st_records (gn_store t)) (serverID k) = Some \<lparr>en_Record = a, en_LastSeen = now, en_Active = True\<rparr>
    \<and> gn_heap t ! a = r' \<and> gn_forwards t = gn_forwards s @ [(a, fromAddr)]"
proof -
  obtain data sig where d: "js_record (ge_js env) (r\<lparr>nr_Signature := []\<rparr>) = Inr data"
    and sg: "key_sign (ge_ed env) k data = Ret sig" and r': "r' = r\<lparr>nr_Signature := sig\<rparr>"
    using assms(5) by (auto simp: signRecord_def Let_def bind_go_Ret_iff split: sum.splits)
  obtain sig' where "key_sign (ge_ed env) k data = Ret sig'" "sig' \<noteq> []" "verify (ge_ed env) (serverID k) sig' data = Ret None"
    using verify_sign [OF assms(1,2)] by blast
  with sg d assms(4) have "verifyRecord (ge_ed env) (ge_js env) r' = Ret (r', None)"
    by (simp add: verifyRecord_def r' Let_def)
  then have "check_record env payload s = Ret (Some r')"
    using assms(3,4,6,7) by (simp add: check_record_def) (simp add: r')
  then show ?thesis
    using assms(4,7) by (simp add: handleNodeRecord_def store_record_def new_record_def store_put_def Let_def)
      (simp add: r')
qed

section \<open>The own record\<close>

text \<open>
  Runs in which nobody sends the node one of its own heartbeats back: no such heartbeat is verified
  and waits to refresh the entry.
\<close>

definition quiet_step :: "gossip_env \<Rightarrow> gossip \<Rightarrow> gossip \<Rightarrow> bool" where
  "quiet_step env s t \<longleftrightarrow> gossip_step env s t \<and> serverID (ge_key env) \<notin> fst ` set (gn_beats t)"

definition own_inv :: "gossip_env \<Rightarrow> instant \<Rightarrow> gossip \<Rightarrow> bool" where
  "own_inv env started s \<longleftrightarrow> gossip_inv env s \<and> serverID (ge_key env) \<notin> fst ` set (gn_beats s)
     \<and> (\<forall>e. mget (st_records (gn_store s)) (serverID (ge_key env)) = Some e \<longrightarrow> en_Record e = ge_own env \<and> en_LastSeen e = started)"

lemma own_inv_start:
  assumes "gossip_start env cfg now started = Ret (Some s)" and "ge_own env = 0"
  shows "own_inv env started s"
proof -
  have g: "gossip_inv env s" by (rule gossip_inv_start) (use assms in \<open>auto simp: gossip_init_def\<close>)
  obtain r where sg: "signRecord (ge_ed env) (ge_js env) (own_record cfg (ge_key env) now) (ge_key env) = Ret (r, None)"
    and s: "only_sent \<lparr>gn_heap = [r], gn_store = fst (store_put [r] started 0 newStore),
        gn_peers = newPeerManager started (gc_BootstrapPeers cfg), gn_sent = [], gn_forwards = [], gn_pending = [], gn_beats = [],
        gn_started = []\<rparr> s"
    using gossip_start_shape [OF assms(1)] .
  have "gn_store s = fst (store_put [r] started 0 newStore)" "gn_beats s = []"
    using only_sent_fields [OF s] only_sent_beats [OF s] by simp_all
  then show ?thesis using g assms(2)
    by (auto simp: own_inv_def store_put_def newStore_def isSeen_def Let_def split: if_splits)
qed

text \<open>No step but the refreshing of a heartbeat renews the time the own record was last seen.\<close>

lemma own_inv_step:
  assumes "own_inv env started s" and "quiet_step env s t"
  shows "own_inv env started t"
proof -
  let ?own = "serverID (ge_key env)"
  have inv: "gossip_inv env s" and beats: "?own \<notin> fst ` set (gn_beats s)"
    and own: "\<And>e. mget (st_records (gn_store s)) ?own = Some e \<Longrightarrow> en_Record e = ge_own env \<and> en_LastSeen e = started"
    using assms(1) by (auto simp: own_inv_def)
  have step: "gossip_step env s t" and quiet: "?own \<notin> fst ` set (gn_beats t)"
    using assms(2) by (auto simp: quiet_step_def)
  have "en_Record e = ge_own env \<and> en_LastSeen e = started" if e: "mget (st_records (gn_store t)) ?own = Some e" for e
    using step
  proof cases
    case (insert pre r fr post now)
    have "nr_ServerID r \<noteq> ?own" using gossip_invD(8) [OF inv, of r fr] insert(2) by (simp add: authentic_def)
    then have "mget (st_records (gn_store t)) ?own = mget (st_records (gn_store s)) ?own"
      by (simp add: insert(1) store_record_def new_record_def store_put_def Let_def)
    then show ?thesis using own e by simp
  next
    case (refresh pre sid fr post now)
    then have "sid \<noteq> ?own" using beats by auto
    then have "mget (st_records (gn_store t)) ?own = mget (st_records (gn_store s)) ?own"
      by (simp add: refresh(1) refresh_heartbeat_def store_heartbeat_def)
    then show ?thesis using own e by simp
  next
    case (expire ord now)
    have "distinct ord" using expire(2) by (simp add: range_order_def)
    then show ?thesis
      using e own unfolding expire(1) by (auto simp: expireAndCheck_get expire_entry_def bind_eq_Some_conv split: if_splits)
  next
    case (forward pre a fr post ord)
    have "gn_store t = gn_store s" using only_sent_fields [OF only_sent_forward] by (simp add: forward(1))
    then show ?thesis using own e by simp
  next
    case (send_heartbeat ord now)
    then show ?thesis using own e only_sent_fields [OF only_sent_heartbeat [OF send_heartbeat(2)]] by simp
  next
    case (reannounce ord now)
    obtain r' where "only_sent (s\<lparr>gn_heap := (gn_heap s)[ge_own env := r']\<rparr>) t" using announce_frame [OF reannounce(2)] .
    from only_sent_fields [OF this] have "gn_store t = gn_store s" by simp
    then show ?thesis using own e by simp
  qed (use own e in \<open>simp_all add: gossip_connect_def\<close>)
  moreover have "gossip_inv env t" using agent.inv_step [OF inv step] .
  ultimately show ?thesis using quiet by (simp add: own_inv_def)
qed

lemma own_reachable_inv:
  assumes "reachable (\<lambda>s. gossip_start env cfg now started = Ret (Some s)) (quiet_step env) s" and "ge_own env = 0"
  shows "own_inv env started s"
proof -
  have "invariant_system (\<lambda>s. gossip_start env cfg now started = Ret (Some s)) (quiet_step env) (own_inv env started)"
    using own_inv_start [OF _ assms(2)] own_inv_step by unfold_locales
  then show ?thesis using assms(1) by (rule invariant_system.reachable_inv)
qed

text \<open>What \<^verbatim>\<open>list_peers\<close> lists has an active entry under its identifier.\<close>

lemma list_peers_active:
  fixes sid
  assumes inv: "gossip_inv env s" and ord: "range_order (st_records (gn_store s)) ord"
    and r: "r \<in> set (aresp_Records (handle_api_line env ord (Inr \<lparr>areq_Command = cmdListPeers, areq_ServerID = sid\<rparr>) s))"
  shows "\<exists>e. mget (st_records (gn_store s)) (nr_ServerID r) = Some e \<and> en_Active e"
proof -
  obtain i where i: "i \<in> set ord" "en_Active (the (mget (st_records (gn_store s)) i))"
    "r = gn_heap s ! en_Record (the (mget (st_records (gn_store s)) i))"
    using r by (auto simp: handle_api_line_def activeRecords_def range_vals_map [OF ord] api_resp0_def)
  obtain e where e: "mget (st_records (gn_store s)) i = Some e"
    using range_orderD(1) [OF ord gossip_invD(1) [OF inv]] i(1) by auto
  then show ?thesis using i gossip_invD(7) [OF inv e] by simp
qed

section \<open>Properties\<close>

text \<open>C13. Every record is stored and forwarded at most once: among all forwards ever started, no two
  records have the same deduplication key, although checking and storing are not atomic and
  several handlers may hold the same record.\<close>

theorem forwarded_once:
  assumes "reachable (gossip_init env) (gossip_step env) s"
  shows "distinct (map (\<lambda>a. recordKey (gn_heap s ! a)) (gn_started s))
    \<and> set (map fst (gn_forwards s)) \<subseteq> set (gn_started s)
    \<and> (\<forall>a \<in> set (gn_started s). verifyRecord (ge_ed env) (ge_js env) (gn_heap s ! a) = Ret (gn_heap s ! a, None))"
proof -
  have inv: "gossip_inv env s" using agent.reachable_inv [OF assms] .
  have "authentic env (gn_heap s ! a)" if "a \<in> set (gn_started s)" for a
    using gossip_invD(5) [OF inv, of a] gossip_invD(9) [OF inv that] by blast
  with gossip_invD(10,11) [OF inv] show ?thesis by (simp add: authentic_def)
qed

theorem forwarded_once_witness:
  "gn_started ex_gossip = [1] \<and> distinct (map (\<lambda>a. recordKey (gn_heap ex_gossip ! a)) (gn_started ex_gossip))"
  using forwarded_once [OF ex_reachable] ex_gossip_state(2) by blast

text \<open>C31. Which lines end the process: a line makes the handler panic exactly when it is a record message
  with a record of another node that can be marshalled, whose signature is not empty and decodes,
  and whose identifier decodes to fewer or more than 32 bytes, for instance the empty one; the
  signature need not be valid, so anybody who can connect can send such a line.  Nothing else that
  arrives panics, in any reachable state of a node with a well-formed key.\<close>

theorem short_server_id_panics:
  assumes "reachable (gossip_init env) (gossip_step env) s" and "length (nk_PublicKey (ge_key env)) = 32"
  shows "handle_gossip_line env now fromAddr line s = Panic m \<longleftrightarrow> m = ''ed25519: bad public key length''
    \<and> (\<exists>payload r data pub sig. un_message (ge_js env) line = Inr \<lparr>ms_Type = msgNodeRecord, ms_Payload = payload\<rparr>
        \<and> un_record (ge_js env) payload = Inr r \<and> nr_ServerID r \<noteq> serverID (ge_key env)
        \<and> nr_Signature r \<noteq> [] \<and> js_record (ge_js env) (r\<lparr>nr_Signature := []\<rparr>) = Inr data
        \<and> DecodeString RawURLEncoding (nr_ServerID r) = Inr pub \<and> length pub \<noteq> 32
        \<and> DecodeString StdEncoding (nr_Signature r) = Inr sig)"
proof (cases "un_message (ge_js env) line")
  case (Inl e)
  then show ?thesis by (simp add: handle_gossip_line_def)
next
  case (Inr msg)
  have hb: "handleHeartbeat env now (ms_Payload msg) fromAddr s \<noteq> Panic m"
    using heartbeat_returns [OF agent.reachable_inv [OF assms(1)] assms(2), of now "ms_Payload msg" fromAddr] by auto
  have msg: "msg = \<lparr>ms_Type = msgNodeRecord, ms_Payload = payload\<rparr> \<longleftrightarrow> ms_Type msg = msgNodeRecord \<and> ms_Payload msg = payload" for payload
    by (cases msg) auto
  show ?thesis
    using hb unfolding handle_gossip_line_def Inr sum.case msg sum.inject
    by (auto simp: handleNodeRecord_Panic deadly_def)
qed

definition ex_evil :: NodeRecord where
  "ex_evil = (ex_record [] 5)\<lparr>nr_Signature := EncodeToString StdEncoding [0]\<rparr>"

definition ex_evil_env :: gossip_env where
  "ex_evil_env = ex_env\<lparr>ge_js := ex_js\<lparr>un_record := (\<lambda>b. Inr ex_evil),
     un_message := (\<lambda>b. Inr \<lparr>ms_Type = msgNodeRecord, ms_Payload = b\<rparr>)\<rparr>\<rparr>"

theorem short_server_id_panics_witness:
  "handle_gossip_line ex_evil_env 0 ''peer'' [] ex_start = Panic ''ed25519: bad public key length''"
proof -
  have "gossip_start ex_evil_env defaultConfig 0 0 = Ret (Some ex_start)"
    using ex_sig_facts(1) [OF ex_key_pair]
    by (simp add: gossip_start_def signRecord_def ex_evil_env_def ex_env_def ex_js_def Let_def ex_own_def ex_start_def
        own_record_def defaultConfig_def newPeerManager_def)
  then have "gossip_init ex_evil_env ex_start" unfolding gossip_init_def by (auto simp: ex_evil_env_def ex_env_def)
  then have r: "reachable (gossip_init ex_evil_env) (gossip_step ex_evil_env) ex_start" by (rule reach_init)
  have k: "length (nk_PublicKey (ge_key ex_evil_env)) = 32" by (simp add: ex_evil_env_def ex_env_def ex_key_def)
  have sid: "nr_ServerID ex_evil \<noteq> serverID (ge_key ex_evil_env)"
    using rawurl.roundtrip [of "replicate 32 7"] rawurl.roundtrip [of "[]"]
    by (auto simp: ex_evil_def ex_evil_env_def ex_env_def serverID_def ex_key_def)
  have sig: "nr_Signature ex_evil \<noteq> []"
    using length_EncodeToString_Std [of "[0]"] by (auto simp: ex_evil_def)
  have dec: "DecodeString StdEncoding (nr_Signature ex_evil) = Inr [0]"
    by (simp add: ex_evil_def std.roundtrip del: EncodeToString.simps)
  have pub: "DecodeString RawURLEncoding (nr_ServerID ex_evil) = Inr []"
    using rawurl.roundtrip [of "[]"] by (simp add: ex_evil_def)
  have un: "un_message (ge_js ex_evil_env) [] = Inr \<lparr>ms_Type = msgNodeRecord, ms_Payload = []\<rparr>"
    "un_record (ge_js ex_evil_env) [] = Inr ex_evil" "js_record (ge_js ex_evil_env) (ex_evil\<lparr>nr_Signature := []\<rparr>) = Inr [1]"
    by (simp_all add: ex_evil_env_def ex_js_def)
  have "length ([] :: bytes) \<noteq> 32" by simp
  then show ?thesis unfolding short_server_id_panics [OF r k] using un sid sig dec pub by blast
qed

text \<open>C30. Heartbeats cannot do that: in every reachable state of a node with a well-formed key, the
  handler of heartbeats returns, because the identifiers it verifies against belong to records
  that were verified before.\<close>

theorem heartbeat_never_panics:
  assumes "reachable (gossip_init env) (gossip_step env) s" and "length (nk_PublicKey (ge_key env)) = 32"
  shows "\<exists>s'. handleHeartbeat env now payload fromAddr s = Ret s'"
  using heartbeat_returns [OF agent.reachable_inv [OF assms(1)] assms(2)] .

theorem heartbeat_never_panics_witness:
  "check_heartbeat ex_hb_env [] ex_gossip = Ret (Some (serverID ex_key2))
    \<and> (\<exists>s'. handleHeartbeat ex_hb_env 9 [] ''peer'' ex_gossip = Ret s')"
proof -
  have "nr_ServerID (gn_heap ex_gossip ! 1) = hb_ServerID ex_heartbeat"
    by (simp add: ex_gossip_state ex_heartbeat_def)
  moreover have "store_get (serverID ex_key2) (gn_store ex_gossip) = Some 1"
    using ex_keys_differ by (simp add: store_get_def ex_gossip_state)
  moreover have "un_heartbeat (ge_js ex_hb_env) [] = Inr ex_heartbeat" "hb_ServerID ex_heartbeat = serverID ex_key2"
    by (simp_all add: ex_hb_env_def ex_heartbeat_def)
  ultimately have "check_heartbeat ex_hb_env [] ex_gossip = Ret (Some (serverID ex_key2))"
    using ex_hb_verifies by (simp add: check_heartbeat_def)
  moreover have "length (nk_PublicKey (ge_key ex_hb_env)) = 32" by (simp add: ex_hb_env_def ex_env_def ex_key_def)
  ultimately show ?thesis using heartbeat_never_panics [OF ex_hb_reachable] by blast
qed

text \<open>C37. The own record, in a run in which nobody sends the node its own heartbeats back.  An expiry pass
  keeps it as long as the last announcement is at most 24 hours old: announcing renews the
  timestamp of the stored record through the shared pointer.  But no other step renews the time
  it was last seen, which is the time of the start; a pass more than 300 seconds after the start
  makes the record inactive, and the node no longer lists itself for circuits.\<close>

theorem own_record_lifetime:
  fixes sid and t :: instant
  assumes "reachable (\<lambda>s. gossip_start env cfg now started = Ret (Some s)) (quiet_step env) s" and "ge_own env = 0"
    and "range_order (st_records (gn_store s)) ord"
  defines "s' \<equiv> s\<lparr>gn_store := expireAndCheck (gn_heap s) t ord (gn_store s)\<rparr>"
  shows "mget (st_records (gn_store s')) (serverID (ge_key env)) =
      (case mget (st_records (gn_store s)) (serverID (ge_key env)) of
         None \<Rightarrow> None
       | Some e \<Rightarrow> if t - tm_inst (nr_Timestamp (gn_heap s ! 0)) > 86400 * second then None
           else Some \<lparr>en_Record = 0, en_LastSeen = started, en_Active = en_Active e \<and> t - started \<le> 300 * second\<rparr>)
    \<and> (t - started > 300 * second \<and> range_order (st_records (gn_store s')) ord' \<longrightarrow>
         serverID (ge_key env) \<notin> nr_ServerID ` set (aresp_Records
           (handle_api_line env ord' (Inr \<lparr>areq_Command = cmdListPeers, areq_ServerID = sid\<rparr>) s')))
    \<and> (announce env u ord'' s = Ret s'' \<longrightarrow> gn_store s'' = gn_store s \<and> tm_inst (nr_Timestamp (gn_heap s'' ! 0)) = u)"
proof -
  let ?own = "serverID (ge_key env)"
  have o: "own_inv env started s" by (rule own_reachable_inv [OF assms(1,2)])
  then have inv: "gossip_inv env s"
    and own: "\<And>e. mget (st_records (gn_store s)) ?own = Some e \<Longrightarrow> en_Record e = 0 \<and> en_LastSeen e = started"
    using assms(2) by (auto simp: own_inv_def)
  have "distinct ord" using assms(3) by (simp add: range_order_def)
  moreover have "?own \<in> set ord" if "mget (st_records (gn_store s)) ?own \<noteq> None"
    using range_orderD(1) [OF assms(3) gossip_invD(1) [OF inv]] that by simp
  ultimately have entry: "mget (st_records (gn_store s')) ?own =
      (case mget (st_records (gn_store s)) ?own of
         None \<Rightarrow> None
       | Some e \<Rightarrow> if t - tm_inst (nr_Timestamp (gn_heap s ! 0)) > 86400 * second then None
           else Some \<lparr>en_Record = 0, en_LastSeen = started, en_Active = en_Active e \<and> t - started \<le> 300 * second\<rparr>)"
    unfolding s'_def using own
    by (cases "mget (st_records (gn_store s)) ?own"; cases "the (mget (st_records (gn_store s)) ?own)")
      (simp_all add: expireAndCheck_get expire_entry_def recordExpiry_def livenessTimeout_def second_def)
  have inv': "gossip_inv env s'" unfolding s'_def by (rule gossip_inv_expire [OF inv assms(3)])
  have "?own \<notin> nr_ServerID ` set (aresp_Records (handle_api_line env ord' (Inr \<lparr>areq_Command = cmdListPeers, areq_ServerID = sid\<rparr>) s'))"
    if late: "t - started > 300 * second" and ord': "range_order (st_records (gn_store s')) ord'"
  proof
    assume "?own \<in> nr_ServerID ` set (aresp_Records (handle_api_line env ord' (Inr \<lparr>areq_Command = cmdListPeers, areq_ServerID = sid\<rparr>) s'))"
    then obtain e where "mget (st_records (gn_store s')) ?own = Some e" "en_Active e"
      using list_peers_active [OF inv' ord'] by force
    with entry late show False by (auto split: option.splits if_splits)
  qed
  moreover have "gn_store s'' = gn_store s \<and> tm_inst (nr_Timestamp (gn_heap s'' ! 0)) = u" if an: "announce env u ord'' s = Ret s''"
  proof -
    obtain r' where r': "only_sent (s\<lparr>gn_heap := (gn_heap s)[ge_own env := r']\<rparr>) s''" "tm_inst (nr_Timestamp r') = u"
      using announce_frame [OF an] .
    then show ?thesis using only_sent_fields [OF r'(1)] gossip_invD(3) [OF inv] assms(2) by simp
  qed
  ultimately show ?thesis using entry by blast
qed

theorem own_record_lifetime_witness:
  "\<exists>s. announce ex_env (60 * second) [] ex_start = Ret s
    \<and> mget (st_records (expireAndCheck (gn_heap s) (86450 * second) [serverID ex_key] (gn_store s))) (serverID ex_key) =
      Some \<lparr>en_Record = 0, en_LastSeen = 0, en_Active = False\<rparr>"
proof -
  obtain s where a: "announce ex_env (60 * second) [] ex_start = Ret s"
    using ex_sig_facts(1) [OF ex_key_pair]
    by (simp add: announce_def signRecord_def ex_env_def ex_net_js_def ex_js_def Let_def encode_message_def)
  obtain r' where r': "only_sent (ex_start\<lparr>gn_heap := (gn_heap ex_start)[ge_own ex_env := r']\<rparr>) s" "tm_inst (nr_Timestamp r') = 60 * second"
    using announce_frame [OF a] .
  have st: "gn_store s = gn_store ex_start" "gn_beats s = []" "tm_inst (nr_Timestamp (gn_heap s ! 0)) = 60 * second"
    using only_sent_fields [OF r'(1)] only_sent_beats [OF r'(1)] r'(2) by (simp_all add: ex_start_def ex_env_def)
  have r: "st_records (gn_store s) = [(serverID ex_key, \<lparr>en_Record = 0, en_LastSeen = 0, en_Active = True\<rparr>)]"
    by (simp add: st(1)) (simp add: ex_start_def store_put_def isSeen_def newStore_def Let_def)
  have "quiet_step ex_env ex_start s"
    using gossip_step.reannounce [OF _ a] st(2) by (simp add: quiet_step_def range_order_def ex_start_def)
  then have "reachable (\<lambda>s. gossip_start ex_env defaultConfig 0 0 = Ret (Some s)) (quiet_step ex_env) s"
    using ex_starts by (intro reach_step [OF reach_init])
  from own_record_lifetime [OF this, of "[serverID ex_key]" "86450 * second"] show ?thesis
    using a by (simp add: r st(3) ex_env_def range_order_def second_def)
qed

text \<open>A heartbeat is accepted whatever its timestamp says: a recorded heartbeat, played back at any
  later time, marks its node as active and just seen.\<close>

theorem heartbeat_replay:
  assumes "gossip_inv env s" and "un_heartbeat (ge_js env) payload = Inr h"
    and "mget (st_records (gn_store s)) (hb_ServerID h) = Some e"
    and "verifyHeartbeat (ge_ed env) (ge_js env) h (hb_ServerID h) = Ret (h, None)"
  shows "\<exists>t. handleHeartbeat env now payload fromAddr s = Ret t
    \<and> mget (st_records (gn_store t)) (hb_ServerID h) = Some (e\<lparr>en_LastSeen := now, en_Active := True\<rparr>)
    \<and> gn_heap t = gn_heap s"
  using assms gossip_invD(7) [OF assms(1,3)]
  by (simp add: handleHeartbeat_def check_heartbeat_def refresh_heartbeat_def store_get_def store_heartbeat_def)

theorem heartbeat_replay_witness:
  "\<exists>t. handleHeartbeat ex_hb_env (90000 * second) [] ''x'' ex_gossip = Ret t
    \<and> mget (st_records (gn_store t)) (serverID ex_key2) =
      Some \<lparr>en_Record = 1, en_LastSeen = 90000 * second, en_Active = True\<rparr>"
proof -
  have inv: "gossip_inv ex_hb_env ex_gossip" using agent.reachable_inv [OF ex_hb_reachable] .
  have e: "mget (st_records (gn_store ex_gossip)) (hb_ServerID ex_heartbeat) =
      Some \<lparr>en_Record = 1, en_LastSeen = 6, en_Active = True\<rparr>"
    using ex_keys_differ by (simp add: ex_gossip_state ex_heartbeat_def)
  have u: "un_heartbeat (ge_js ex_hb_env) [] = Inr ex_heartbeat" by (simp add: ex_hb_env_def)
  show ?thesis
    using heartbeat_replay [OF inv u e ex_hb_verifies, of "90000 * second" "''x''"] by (auto simp: ex_heartbeat_def)
qed

end
