(* ===== verification/Gossip_Network.thy ===== *)
theory Gossip_Network
  imports Gossip_Invariant
begin

text \<open>
  Several agents of \<^verbatim>\<open>camo-gossip\<close> together, each with a key and a configuration of its own.  The
  steps of the network are the steps of its agents; the messages between them are under the
  control of an adversary who cannot forge signatures of members.  In every reachable state
  of the network what an agent holds about another member is what this member announced.
\<close>

section \<open>What a step of an agent does to its records\<close>

lemma signRecord_frame:
  "signRecord ed js r k = Ret (r', err) \<Longrightarrow> \<exists>sig. r' = r\<lparr>nr_Signature := sig\<rparr>"
  by (auto simp: signRecord_def Let_def bind_go_Ret_iff split: sum.splits)

lemma announce_own:
  assumes "announce env now ord s = Ret t" and "ge_own env < length (gn_heap s)"
  shows "\<exists>sig. gn_heap t = (gn_heap s)[ge_own env := (gn_heap s ! ge_own env)
    \<lparr>nr_Timestamp := \<lparr>tm_inst = now, tm_offset = 0\<rparr>, nr_Signature := sig\<rparr>] \<and> gn_pending t = gn_pending s"
proof -
  let ?r = "(gn_heap s ! ge_own env)\<lparr>nr_Timestamp := \<lparr>tm_inst = now, tm_offset = 0\<rparr>\<rparr>"
  obtain r' err where sg: "signRecord (ge_ed env) (ge_js env) ?r (ge_key env) = Ret (r', err)"
    using assms(1) by (auto simp: announce_def Let_def bind_go_Ret_iff)
  have "only_sent (s\<lparr>gn_heap := (gn_heap s)[ge_own env := r']\<rparr>) t"
    using assms(1) sg by (auto simp: announce_def Let_def split: if_splits sum.splits intro!: only_sent_fold only_sent_sendLine)
  then show ?thesis using only_sent_fields signRecord_frame [OF sg] by fastforce
qed

lemma check_record_decoded:
  assumes "check_record env payload s = Ret (Some r)"
  shows "un_record (ge_js env) payload = Inr r"
proof -
  from assms obtain r0 where u: "un_record (ge_js env) payload = Inr r0" and n: "nr_ServerID r0 \<noteq> serverID (ge_key env)"
    by (auto simp: check_record_def split: sum.splits if_splits)
  with assms obtain r1 err where v: "verifyRecord (ge_ed env) (ge_js env) r0 = Ret (r1, err)"
    by (auto simp: check_record_def bind_go_Ret_iff)
  with assms u n have "r1 = r" by (auto simp: check_record_def split: if_splits)
  with u verifyRecord_object [OF v] show ?thesis by simp
qed

text \<open>Two records that differ in the time of the announcement and the signature only.\<close>

definition same_node :: "NodeRecord \<Rightarrow> NodeRecord \<Rightarrow> bool" where
  "same_node r r' \<longleftrightarrow> (\<exists>now sig. r' = r\<lparr>nr_Timestamp := \<lparr>tm_inst = now, tm_offset = 0\<rparr>, nr_Signature := sig\<rparr>)"

text \<open>
  The records after a step: the own one may have been announced again, the others were there
  before or were pending, and a record becomes pending only when it is decoded from a payload.
\<close>

definition records_follow :: "gossip_env \<Rightarrow> gossip \<Rightarrow> gossip \<Rightarrow> bool" where
  "records_follow env s t \<longleftrightarrow>
     (gn_heap t ! ge_own env = gn_heap s ! ge_own env \<or> same_node (gn_heap s ! ge_own env) (gn_heap t ! ge_own env))
   \<and> (\<forall>a < length (gn_heap t). a \<noteq> ge_own env \<longrightarrow>
        a < length (gn_heap s) \<and> gn_heap t ! a = gn_heap s ! a \<or> gn_heap t ! a \<in> fst ` set (gn_pending s))
   \<and> (\<forall>p \<in> set (gn_pending t). p \<in> set (gn_pending s) \<or> (\<exists>payload. un_record (ge_js env) payload = Inr (fst p)))"

lemma records_follow_frame:
  "gn_heap t = gn_heap s \<Longrightarrow> set (gn_pending t) \<subseteq> set (gn_pending s) \<Longrightarrow> records_follow env s t"
  by (auto simp: records_follow_def)

lemma records_follow_store:
  assumes "r \<in> fst ` set (gn_pending s)" and "ge_own env < length (gn_heap s)"
    and "gn_heap u = gn_heap s" and "set (gn_pending u) \<subseteq> set (gn_pending s)"
  shows "records_follow env s (store_record now r from u)"
proof (cases "isSeen (recordKey r) (gn_store u)")
  case True
  then have "store_record now r from u = u"
    by (simp add: store_record_def new_record_def store_put_def Let_def)
  then show ?thesis using assms(3,4) by (simp add: records_follow_frame)
next
  case False
  note t = store_record_new [OF False, where now = now and fromAddr = "from"]
  show ?thesis
    unfolding records_follow_def t(1,6) assms(3) using assms(1,2,4) by (auto simp: nth_append less_Suc_eq)
qed

lemma gossip_step_records:
  assumes "gossip_inv env s" and "gossip_step env s t"
  shows "records_follow env s t"
  using assms(2)
proof cases
  case (check payload r fr)
  then show ?thesis using check_record_decoded [OF check(2)] by (auto simp: records_follow_def)
next
  case (insert pre r fr post now)
  then have "r \<in> fst ` set (gn_pending s)" by force
  then show ?thesis
    unfolding insert(1) using gossip_invD(3) [OF assms(1)] by (rule records_follow_store) (auto simp: insert(2))
next
  case (forward pre a fr post ord)
  have "only_sent (s\<lparr>gn_forwards := pre @ post\<rparr>) t" using forward only_sent_forward by metis
  from only_sent_fields [OF this] show ?thesis by (intro records_follow_frame) simp_all
next
  case (send_heartbeat ord now)
  from only_sent_fields [OF only_sent_heartbeat [OF send_heartbeat(2)]] show ?thesis by (intro records_follow_frame) simp_all
next
  case (reannounce ord now)
  from announce_own [OF reannounce(2) gossip_invD(3) [OF assms(1)]] obtain sig where
    h: "gn_heap t = (gn_heap s)[ge_own env := (gn_heap s ! ge_own env)
      \<lparr>nr_Timestamp := \<lparr>tm_inst = now, tm_offset = 0\<rparr>, nr_Signature := sig\<rparr>]" and p: "gn_pending t = gn_pending s" by blast
  show ?thesis
    unfolding records_follow_def h p using gossip_invD(3) [OF assms(1)] by (auto simp: same_node_def)
qed (auto intro!: records_follow_frame simp: gossip_connect_def refresh_heartbeat_def)

section \<open>A network of agents\<close>

text \<open>
  The members of a network, by the address they listen on: each has a key and a configuration
  of its own, all run the same program.
\<close>

record member =
  me_key :: nodeKey
  me_cfg :: gossipConfig

definition member_env :: "ed25519 \<Rightarrow> codec \<Rightarrow> (string \<Rightarrow> member) \<Rightarrow> string \<Rightarrow> gossip_env" where
  "member_env ed js mem i = \<lparr>ge_ed = ed, ge_js = js, ge_key = me_key (mem i), ge_own = 0\<rparr>"

text \<open>The states of the agents, and a history of the records that each has signed.\<close>

record network =
  nw_nodes :: "string \<Rightarrow> gossip"
  nw_signed :: "string \<Rightarrow> NodeRecord list"

text \<open>
  What can be delivered.  Anybody may send anything at any time, replay what was sent before, or
  sign with keys of his own.  Only the signatures of members cannot be forged: the bytes that a
  signature of a member verifies for were signed by this member, as a record or as a heartbeat.
\<close>

definition unforged :: "codec \<Rightarrow> (string \<Rightarrow> member) \<Rightarrow> string set \<Rightarrow> network \<Rightarrow> NodeRecord \<Rightarrow> bool" where
  "unforged js mem N w r \<longleftrightarrow> (\<forall>j \<in> N. nr_ServerID r = serverID (me_key (mem j)) \<longrightarrow>
     (\<exists>r0 \<in> set (nw_signed w j). js_record js (r\<lparr>nr_Signature := []\<rparr>) = js_record js (r0\<lparr>nr_Signature := []\<rparr>))
     \<or> (\<exists>h. js_record js (r\<lparr>nr_Signature := []\<rparr>) = js_heartbeat js h))"

inductive network_step :: "ed25519 \<Rightarrow> codec \<Rightarrow> (string \<Rightarrow> member) \<Rightarrow> string set \<Rightarrow> network \<Rightarrow> network \<Rightarrow> bool"
  for ed js mem N where
  node: "i \<in> N \<Longrightarrow> gossip_step (member_env ed js mem i) (nw_nodes w i) s \<Longrightarrow>
     (\<And>p. p \<in> set (gn_pending s) \<Longrightarrow> p \<in> set (gn_pending (nw_nodes w i)) \<or> unforged js mem N w (fst p)) \<Longrightarrow>
     network_step ed js mem N w (w\<lparr>nw_nodes := (nw_nodes w)(i := s),
       nw_signed := (nw_signed w)(i := nw_signed w i @ [gn_heap s ! 0])\<rparr>)"

definition network_init :: "ed25519 \<Rightarrow> codec \<Rightarrow> (string \<Rightarrow> member) \<Rightarrow> string set \<Rightarrow> network \<Rightarrow> bool" where
  "network_init ed js mem N w \<longleftrightarrow> (\<forall>i \<in> N. nw_signed w i = [gn_heap (nw_nodes w i) ! 0]
     \<and> (\<exists>now now'. gossip_start (member_env ed js mem i) (me_cfg (mem i)) now now' = Ret (Some (nw_nodes w i))))"

text \<open>
  What is relied on of the coding, for a set of records that contains all decoded ones: it
  distinguishes records, and records from heartbeats.
\<close>

definition coding_ok :: "codec \<Rightarrow> NodeRecord set \<Rightarrow> bool" where
  "coding_ok js C \<longleftrightarrow>
     (\<forall>r \<in> C. \<forall>r' \<in> C. \<forall>d. js_record js r = Inr d \<and> js_record js r' = Inr d \<longrightarrow> r = r')
   \<and> (\<forall>r \<in> C. \<forall>h d. js_record js r = Inr d \<longrightarrow> js_heartbeat js h \<noteq> Inr d)
   \<and> (\<forall>p r. un_record js p = Inr r \<longrightarrow> r\<lparr>nr_Signature := []\<rparr> \<in> C)"

text \<open>The record of a member, as its configuration says, announced at some time.\<close>

definition record_of :: "member \<Rightarrow> NodeRecord \<Rightarrow> bool" where
  "record_of m r \<longleftrightarrow> r\<lparr>nr_Signature := []\<rparr> = own_record (me_cfg m) (me_key m) (tm_inst (nr_Timestamp r))"

definition genuine :: "(string \<Rightarrow> member) \<Rightarrow> string set \<Rightarrow> NodeRecord \<Rightarrow> bool" where
  "genuine mem N r \<longleftrightarrow> (\<forall>j \<in> N. nr_ServerID r = serverID (me_key (mem j)) \<longrightarrow> record_of (mem j) r)"

lemma record_of_same: "record_of m r \<Longrightarrow> same_node r r' \<Longrightarrow> record_of m r'"
  by (cases r) (auto simp: record_of_def same_node_def own_record_def)

lemma record_of_fields:
  assumes "record_of m r"
  shows "nr_ServerID r = serverID (me_key m)" and "nr_WireGuardKey r = gc_WireGuardPubKey (me_cfg m)"
    and "ep_WireGuard (nr_Endpoints r) = gc_WireGuardAddr (me_cfg m)"
    and "ca_ExitNode (nr_Capabilities r) = gc_ExitNode (me_cfg m)"
    and "ca_Jurisdictions (nr_Capabilities r) = gc_Jurisdictions (me_cfg m)"
  using assms by (cases r; simp add: record_of_def own_record_def)+

text \<open>A record that is no forgery and can be decoded is genuine.\<close>

lemma unforged_genuine:
  assumes cod: "coding_ok js C" and dec: "un_record js p = Inr r" and uf: "unforged js mem N w r"
    and own: "\<And>i now. i \<in> N \<Longrightarrow> own_record (me_cfg (mem i)) (me_key (mem i)) now \<in> C"
    and enc: "js_record js (r\<lparr>nr_Signature := []\<rparr>) = Inr d"
    and hist: "\<And>i r. i \<in> N \<Longrightarrow> r \<in> set (nw_signed w i) \<Longrightarrow> record_of (mem i) r"
  shows "genuine mem N r"
  unfolding genuine_def
proof (intro ballI impI)
  fix j assume j: "j \<in> N" "nr_ServerID r = serverID (me_key (mem j))"
  have C: "r\<lparr>nr_Signature := []\<rparr> \<in> C" using cod dec unfolding coding_ok_def by blast
  have "js_record js (r\<lparr>nr_Signature := []\<rparr>) \<noteq> js_heartbeat js h" for h
    using cod C enc unfolding coding_ok_def by metis
  then obtain r0 where r0: "r0 \<in> set (nw_signed w j)" "js_record js (r0\<lparr>nr_Signature := []\<rparr>) = Inr d"
    using uf j enc unfolding unforged_def by metis
  then have ro: "record_of (mem j) r0" using hist j by blast
  then have "r0\<lparr>nr_Signature := []\<rparr> \<in> C" unfolding record_of_def using own [OF j(1)] by simp
  then have "r\<lparr>nr_Signature := []\<rparr> = r0\<lparr>nr_Signature := []\<rparr>"
    using cod C enc r0(2) unfolding coding_ok_def by blast
  moreover from this have "nr_Timestamp r = nr_Timestamp r0" by (cases r; cases r0) simp
  ultimately show "record_of (mem j) r" using ro by (simp add: record_of_def)
qed

section \<open>The invariant\<close>

definition network_inv :: "ed25519 \<Rightarrow> codec \<Rightarrow> (string \<Rightarrow> member) \<Rightarrow> string set \<Rightarrow> network \<Rightarrow> bool" where
  "network_inv ed js mem N w \<longleftrightarrow> (\<forall>i \<in> N.
       gossip_inv (member_env ed js mem i) (nw_nodes w i)
     \<and> record_of (mem i) (gn_heap (nw_nodes w i) ! 0)
     \<and> (\<forall>r \<in> set (nw_signed w i). record_of (mem i) r)
     \<and> (\<forall>a < length (gn_heap (nw_nodes w i)). a \<noteq> 0 \<longrightarrow> genuine mem N (gn_heap (nw_nodes w i) ! a))
     \<and> (\<forall>p \<in> set (gn_pending (nw_nodes w i)). genuine mem N (fst p)))"

lemma member_env_simps [simp]:
  "ge_ed (member_env ed js mem i) = ed" "ge_js (member_env ed js mem i) = js"
  "ge_key (member_env ed js mem i) = me_key (mem i)" "ge_own (member_env ed js mem i) = 0"
  by (simp_all add: member_env_def)

lemma authentic_encodes: "authentic env r \<Longrightarrow> \<exists>d. js_record (ge_js env) (r\<lparr>nr_Signature := []\<rparr>) = Inr d"
  by (auto simp: authentic_def verifyRecord_def Let_def split: if_splits sum.splits)

lemma network_inv_init:
  assumes "network_init ed js mem N w"
  shows "network_inv ed js mem N w"
  unfolding network_inv_def
proof (intro ballI)
  fix i assume i: "i \<in> N"
  let ?env = "member_env ed js mem i" and ?s = "nw_nodes w i"
  obtain now now' where st: "gossip_start ?env (me_cfg (mem i)) now now' = Ret (Some ?s)"
    and sg: "nw_signed w i = [gn_heap ?s ! 0]"
    using assms i unfolding network_init_def by blast
  have "gossip_init ?env ?s" using st by (auto simp: gossip_init_def)
  then have inv: "gossip_inv ?env ?s" by (rule gossip_inv_start)
  obtain r where r: "signRecord ed js (own_record (me_cfg (mem i)) (me_key (mem i)) now) (me_key (mem i)) = Ret (r, None)"
    and o: "only_sent \<lparr>gn_heap = [r], gn_store = fst (store_put [r] now' 0 newStore),
        gn_peers = newPeerManager now' (gc_BootstrapPeers (me_cfg (mem i))), gn_sent = [], gn_forwards = [],
        gn_pending = [], gn_beats = [], gn_started = []\<rparr> ?s"
    using gossip_start_shape [OF st] by auto
  obtain sig where "r = (own_record (me_cfg (mem i)) (me_key (mem i)) now)\<lparr>nr_Signature := sig\<rparr>"
    using signRecord_frame [OF r] by blast
  then have "record_of (mem i) r" by (simp add: record_of_def own_record_def)
  moreover have "gn_heap ?s = [r]" "gn_pending ?s = []" using only_sent_fields [OF o] by simp_all
  ultimately show "gossip_inv ?env ?s \<and> record_of (mem i) (gn_heap ?s ! 0) \<and> (\<forall>r \<in> set (nw_signed w i). record_of (mem i) r)
      \<and> (\<forall>a < length (gn_heap ?s). a \<noteq> 0 \<longrightarrow> genuine mem N (gn_heap ?s ! a)) \<and> (\<forall>p \<in> set (gn_pending ?s). genuine mem N (fst p))"
    using inv sg by simp
qed

lemma network_inv_step:
  assumes cod: "coding_ok js C" and own: "\<And>i now. i \<in> N \<Longrightarrow> own_record (me_cfg (mem i)) (me_key (mem i)) now \<in> C"
    and inv: "network_inv ed js mem N w" and step: "network_step ed js mem N w w'"
  shows "network_inv ed js mem N w'"
  using step
proof cases
  case (node i s)
  let ?env = "member_env ed js mem i" and ?s = "nw_nodes w i"
  have invi: "gossip_inv ?env ?s" "record_of (mem i) (gn_heap ?s ! 0)"
    "\<And>a. a < length (gn_heap ?s) \<Longrightarrow> a \<noteq> 0 \<Longrightarrow> genuine mem N (gn_heap ?s ! a)"
    "\<And>p. p \<in> set (gn_pending ?s) \<Longrightarrow> genuine mem N (fst p)"
    using inv node(2) unfolding network_inv_def by blast+
  have hist: "\<And>j r. j \<in> N \<Longrightarrow> r \<in> set (nw_signed w j) \<Longrightarrow> record_of (mem j) r"
    using inv unfolding network_inv_def by blast
  have f: "records_follow ?env ?s s" using gossip_step_records [OF invi(1) node(3)] .
  have inv': "gossip_inv ?env s" using agent.inv_step [OF invi(1) node(3)] .
  have own': "record_of (mem i) (gn_heap s ! 0)"
    using f invi(2) record_of_same unfolding records_follow_def by auto
  have heap: "genuine mem N (gn_heap s ! a)" if "a < length (gn_heap s)" "a \<noteq> 0" for a
  proof -
    have "a < length (gn_heap ?s) \<and> gn_heap s ! a = gn_heap ?s ! a \<or> gn_heap s ! a \<in> fst ` set (gn_pending ?s)"
      using f that unfolding records_follow_def by simp
    then show ?thesis using invi(3) [OF _ that(2)] invi(4) by auto
  qed
  have pend: "genuine mem N (fst p)" if p: "p \<in> set (gn_pending s)" for p
  proof (cases "p \<in> set (gn_pending ?s)")
    case True
    then show ?thesis by (rule invi(4))
  next
    case False
    with f p obtain payload where dec: "un_record js payload = Inr (fst p)" unfolding records_follow_def by auto
    have uf: "unforged js mem N w (fst p)" using node(4) [OF p] False by blast
    have "authentic ?env (fst p)" using gossip_invD(8) [OF inv', of "fst p" "snd p"] p by simp
    then obtain d where enc: "js_record js ((fst p)\<lparr>nr_Signature := []\<rparr>) = Inr d"
      using authentic_encodes [of ?env "fst p"] by auto
    show ?thesis by (rule unforged_genuine [OF cod dec uf _ enc]) (auto intro: own hist)
  qed
  show ?thesis
    using inv inv' own' heap pend unfolding node(1) network_inv_def by simp
qed

lemma network_reachable_inv:
  assumes "coding_ok js C" and "\<forall>i \<in> N. \<forall>now. own_record (me_cfg (mem i)) (me_key (mem i)) now \<in> C"
    and "reachable (network_init ed js mem N) (network_step ed js mem N) w"
  shows "network_inv ed js mem N w"
proof -
  have "invariant_system (network_init ed js mem N) (network_step ed js mem N) (network_inv ed js mem N)"
    using network_inv_init network_inv_step [OF assms(1)] assms(2) by unfold_locales blast+
  then show ?thesis using assms(3) by (rule invariant_system.reachable_inv)
qed

lemma member_records:
  assumes "network_inv ed js mem N w" and "i \<in> N" and "j \<in> N"
    and "r \<in> set (gn_heap (nw_nodes w i))" and "nr_ServerID r = serverID (me_key (mem j))"
    and "nr_ServerID r \<noteq> serverID (me_key (mem i))"
  shows "record_of (mem j) r"
proof -
  obtain a where a: "a < length (gn_heap (nw_nodes w i))" "r = gn_heap (nw_nodes w i) ! a"
    using assms(4) by (auto simp: in_set_conv_nth)
  have "record_of (mem i) (gn_heap (nw_nodes w i) ! 0)" using assms(1,2) unfolding network_inv_def by blast
  then have "a \<noteq> 0" using record_of_fields(1) a(2) assms(6) by metis
  then have "genuine mem N r" using assms(1,2) a unfolding network_inv_def by blast
  then show ?thesis using assms(3,5) unfolding genuine_def by blast
qed

text \<open>Records under the identifier of any member, the own one included.\<close>

lemma listed_member:
  assumes inv: "network_inv ed js mem N w" and i: "i \<in> N" and r: "r \<in> set (gn_heap (nw_nodes w i))"
    and j: "j \<in> N" "nr_ServerID r = serverID (me_key (mem j))"
  shows "\<exists>m. record_of m r"
proof (cases "nr_ServerID r = serverID (me_key (mem i))")
  case True
  obtain a where a: "a < length (gn_heap (nw_nodes w i))" "r = gn_heap (nw_nodes w i) ! a"
    using r by (auto simp: in_set_conv_nth)
  have g: "gossip_inv (member_env ed js mem i) (nw_nodes w i)" "record_of (mem i) (gn_heap (nw_nodes w i) ! 0)"
    using inv i unfolding network_inv_def by blast+
  have "a = 0" using gossip_invD(5) [OF g(1) a(1)] True a(2) by (auto simp: authentic_def)
  then show ?thesis using g(2) a(2) by blast
next
  case False
  then show ?thesis using member_records [OF inv i j(1) r j(2)] by blast
qed

section \<open>Learning of a peer\<close>

lemma network_reachable_learn:
  assumes r: "reachable (network_init ed js mem N) (network_step ed js mem N) w" and i: "i \<in> N"
    and c: "check_record (member_env ed js mem i) payload (nw_nodes w i) = Ret (Some r)" and u: "unforged js mem N w r"
  shows "\<exists>w'. reachable (network_init ed js mem N) (network_step ed js mem N) w'
    \<and> nw_nodes w' = (nw_nodes w)(i := store_record now r fromAddr (nw_nodes w i))
    \<and> (\<forall>j. set (nw_signed w j) \<subseteq> set (nw_signed w' j))"
proof -
  let ?env = "member_env ed js mem i" and ?s = "nw_nodes w i"
  let ?p = "?s\<lparr>gn_pending := gn_pending ?s @ [(r, fromAddr)]\<rparr>"
  let ?w = "w\<lparr>nw_nodes := (nw_nodes w)(i := ?p), nw_signed := (nw_signed w)(i := nw_signed w i @ [gn_heap ?p ! 0])\<rparr>"
  have "network_step ed js mem N w ?w"
    by (rule network_step.node [OF i gossip_step.check [OF c]]) (auto simp: u)
  then have w: "reachable (network_init ed js mem N) (network_step ed js mem N) ?w" using reach_step [OF r] by blast
  let ?t = "store_record now r fromAddr (?p\<lparr>gn_pending := gn_pending ?s @ []\<rparr>)"
  let ?w' = "?w\<lparr>nw_nodes := (nw_nodes ?w)(i := ?t), nw_signed := (nw_signed ?w)(i := nw_signed ?w i @ [gn_heap ?t ! 0])\<rparr>"
  have "network_step ed js mem N ?w ?w'"
  proof (rule network_step.node [OF i])
    have n: "nw_nodes ?w i = ?p" by simp
    show "gossip_step ?env (nw_nodes ?w i) ?t" unfolding n by (rule gossip_step.insert) simp
    fix p assume "p \<in> set (gn_pending ?t)"
    then show "p \<in> set (gn_pending (nw_nodes ?w i)) \<or> unforged js mem N ?w (fst p)"
      by (simp add: store_record_def Let_def split: prod.splits if_splits)
  qed
  then have "reachable (network_init ed js mem N) (network_step ed js mem N) ?w'" using reach_step [OF w] by blast
  moreover have "nw_nodes ?w' = (nw_nodes w)(i := store_record now r fromAddr ?s)" by simp
  moreover have "\<forall>j. set (nw_signed w j) \<subseteq> set (nw_signed ?w' j)" by auto
  ultimately show ?thesis by blast
qed

section \<open>An example network\<close>

text \<open>
  Members with numbered keys, in three jurisdictions; member 8 knows member 7.  The coding of a record is the number of its
  key and the time in unary; a payload is decoded to the record that the member named by its
  first byte announces at time 5.
\<close>

definition net_key :: "byte \<Rightarrow> nodeKey" where
  "net_key b = \<lparr>nk_PublicKey = replicate 32 b, nk_PrivateKey = replicate 64 b\<rparr>"

definition net_boot :: "byte \<Rightarrow> string list" where
  "net_boot b = (if b = 8 then [''7''] else [])"

definition net_cfg :: "byte \<Rightarrow> gossipConfig" where
  "net_cfg b = defaultConfig\<lparr>gc_BootstrapPeers := net_boot b, gc_WireGuardPubKey := ''wg'' @ serverID (net_key b),
     gc_WireGuardAddr := ''192.0.2.1:51820'', gc_ExitNode := True,
     gc_Jurisdictions := [if b = 1 then ''SE'' else if b = 2 then ''NL'' else if b = 3 then ''SE'' else ''DE'']\<rparr>"

definition net_code :: "NodeRecord \<Rightarrow> bytes" where
  "net_code r = (case DecodeString RawURLEncoding (nr_ServerID r) of Inl e \<Rightarrow> 0 | Inr k \<Rightarrow> hd k)
     # (if tm_inst (nr_Timestamp r) < 0 then 0 else 1) # replicate (nat \<bar>tm_inst (nr_Timestamp r)\<bar>) 1"

definition net_announced :: "byte \<Rightarrow> int \<Rightarrow> NodeRecord" where
  "net_announced b now = own_record (net_cfg b) (net_key b) now"

definition net_record :: "byte \<Rightarrow> NodeRecord" where
  "net_record b = (net_announced b 5)\<lparr>nr_Signature :=
     EncodeToString StdEncoding (ed_sign ex_ed (nk_PrivateKey (net_key b)) (net_code (net_announced b 5)))\<rparr>"

definition net_js :: codec where
  "net_js = \<lparr>js_record = (\<lambda>r. Inr (net_code r)), js_heartbeat = (\<lambda>h. Inr []), js_message = (\<lambda>m. Inr (ms_Payload m)),
     un_record = (\<lambda>p. Inr (net_record (hd p))), un_heartbeat = (\<lambda>b. Inl (LibError ''json'')),
     un_message = (\<lambda>b. Inr \<lparr>ms_Type = msgNodeRecord, ms_Payload = b\<rparr>)\<rparr>"

text \<open>A member has a one-digit address.\<close>

definition net_byte :: "string \<Rightarrow> byte" where
  "net_byte a = (if a = [] then 0 else of_nat (of_char (hd a)) - 48)"

definition net_mem :: "string \<Rightarrow> member" where
  "net_mem a = \<lparr>me_key = net_key (net_byte a), me_cfg = net_cfg (net_byte a)\<rparr>"

definition net_coded :: "NodeRecord set" where
  "net_coded = {net_announced b now |b now. True}"

lemma net_boot_simps [simp]: "net_boot 7 = []" "net_boot 8 = [''7'']"
  by (simp_all add: net_boot_def)

lemma net_key_inj [simp]: "serverID (net_key b) = serverID (net_key c) \<longleftrightarrow> b = c"
  using serverID_inj [of "net_key b" "net_key c"] by (auto simp: net_key_def replicate_eq_replicate)

lemma net_announced_fields [simp]:
  "nr_ServerID (net_announced b now) = serverID (net_key b)" "tm_inst (nr_Timestamp (net_announced b now)) = now"
  "nr_Signature (net_announced b now) = []"
  by (simp_all add: net_announced_def own_record_def)

lemma net_record_fields [simp]:
  "nr_ServerID (net_record b) = serverID (net_key b)" "tm_inst (nr_Timestamp (net_record b)) = 5"
  "(net_record b)\<lparr>nr_Signature := []\<rparr> = net_announced b 5"
  by (simp_all add: net_record_def)

lemma net_code_announced:
  "net_code (net_announced b now) = b # (if now < 0 then 0 else 1) # replicate (nat \<bar>now\<bar>) 1"
  by (simp add: net_code_def serverID_def rawurl.roundtrip net_key_def del: EncodeToString.simps)

lemma net_code_eq: "net_code (net_announced b t) = net_code (net_announced c u) \<Longrightarrow> b = c \<and> t = u"
  unfolding net_code_announced by (auto simp: replicate_eq_replicate split: if_splits)

lemma net_js_simps:
  "js_record net_js r = Inr (net_code r)" "js_heartbeat net_js h = Inr []" "un_record net_js p = Inr (net_record (hd p))"
  "js_message net_js m = Inr (ms_Payload m)" "un_message net_js p = Inr \<lparr>ms_Type = msgNodeRecord, ms_Payload = p\<rparr>"
  by (simp_all add: net_js_def)

lemma net_coding: "coding_ok net_js net_coded"
  unfolding coding_ok_def
proof (intro conjI ballI allI impI)
  fix r r' d assume "r \<in> net_coded" "r' \<in> net_coded" "js_record net_js r = Inr d \<and> js_record net_js r' = Inr d"
  then show "r = r'" using net_code_eq unfolding net_coded_def net_js_simps by blast
next
  fix r h d assume "r \<in> net_coded" "js_record net_js r = Inr d"
  then show "js_heartbeat net_js h \<noteq> Inr d" by (auto simp: net_js_simps net_code_def)
next
  fix p r assume "un_record net_js p = Inr r"
  then have "r = net_record (hd p)" by (simp add: net_js_simps)
  then have "r\<lparr>nr_Signature := []\<rparr> = net_announced (hd p) 5" by (simp only: net_record_fields)
  then show "r\<lparr>nr_Signature := []\<rparr> \<in> net_coded" unfolding net_coded_def by blast
qed

lemma net_own_coded: "\<forall>i \<in> N. \<forall>now. own_record (me_cfg (net_mem i)) (me_key (net_mem i)) now \<in> net_coded"
  by (auto simp: net_mem_def net_coded_def net_announced_def)

lemma net_key_pair: "ed_keypair ex_ed (nk_PublicKey (net_key b)) (nk_PrivateKey (net_key b))"
  by (simp add: ex_ed_def net_key_def flip: replicate_add)

lemma net_unsigned: "(net_announced b t)\<lparr>nr_Signature := []\<rparr> = net_announced b t"
  by (simp add: net_announced_def own_record_def)

lemma net_sign: "signRecord ex_ed net_js (net_announced b 5) (net_key b) = Ret (net_record b, None)"
proof -
  have "length (nk_PrivateKey (net_key b)) = 64" by (simp add: net_key_def)
  then show ?thesis
    unfolding signRecord_def net_unsigned net_js_simps Let_def
    by (simp add: key_sign_def ed25519_Sign_def net_record_def)
qed

lemma net_verifies: "verifyRecord ex_ed net_js (net_record b) = Ret (net_record b, None)"
proof -
  have "js_record net_js ((net_announced b 5)\<lparr>nr_Signature := []\<rparr>) = Inr (net_code ((net_announced b 5)\<lparr>nr_Signature := []\<rparr>))"
    by (simp add: net_js_simps)
  from signed_verifies [OF ex_ed_ok net_key_pair _ this] obtain sig where
    "signRecord ex_ed net_js ((net_announced b 5)\<lparr>nr_Signature := []\<rparr>) (net_key b) = Ret ((net_announced b 5)\<lparr>nr_Signature := sig\<rparr>, None)"
    "verifyRecord ex_ed net_js ((net_announced b 5)\<lparr>nr_Signature := sig\<rparr>) = Ret ((net_announced b 5)\<lparr>nr_Signature := sig\<rparr>, None)"
    by auto
  then show ?thesis using net_sign [of b] by (simp only: net_unsigned) auto
qed

definition net_members :: "string set" where
  "net_members = {''1'', ''2'', ''3'', ''4'', ''7''}"

definition net_env :: gossip_env where
  "net_env = member_env ex_ed net_js net_mem ''7''"

definition net_start :: "byte \<Rightarrow> gossip" where
  "net_start b = \<lparr>gn_heap = [net_record b], gn_store = fst (store_put [net_record b] 5 0 newStore),
     gn_peers = newPeerManager 5 (net_boot b), gn_sent = map (\<lambda>p. (p, net_code (net_record b) @ [10])) (net_boot b), gn_forwards = [], gn_pending = [], gn_beats = [], gn_started = []\<rparr>"

definition net_init :: network where
  "net_init = \<lparr>nw_nodes = (\<lambda>a. net_start (net_byte a)), nw_signed = (\<lambda>a. [net_record (net_byte a)])\<rparr>"

fun net_learn :: "byte list \<Rightarrow> gossip" where
  "net_learn [] = net_start 7"
| "net_learn (b # bs) = store_record 6 (net_record b) ''peer'' (net_learn bs)"

definition net_ids :: "byte list \<Rightarrow> string list" where
  "net_ids bs = map (\<lambda>b. serverID (net_key b)) (7 # rev bs)"

lemma net_mem_simps: "me_key (net_mem a) = net_key (net_byte a)" "me_cfg (net_mem a) = net_cfg (net_byte a)"
  by (simp_all add: net_mem_def)

lemma sendLine_fold:
  "fold (\<lambda>a. sendLine a l) as s = s\<lparr>gn_sent := gn_sent s @ map (\<lambda>a. (a, l @ [10])) as\<rparr>"
  by (induction as arbitrary: s) (simp_all add: sendLine_def)

lemma net_starts: "gossip_start (member_env ex_ed net_js net_mem a) (me_cfg (net_mem a)) 5 5 = Ret (Some (net_start (net_byte a)))"
proof -
  have "gc_BootstrapPeers (net_cfg b) = net_boot b" for b by (simp add: net_cfg_def)
  then show ?thesis
    using net_sign [of "net_byte a"]
    by (simp add: gossip_start_def net_mem_simps net_announced_def net_start_def net_js_simps sendLine_fold Let_def)
qed

lemma net_init_ok: "network_init ex_ed net_js net_mem N net_init"
  unfolding network_init_def net_init_def using net_starts by (auto simp: net_start_def)

lemma net_byte_members: "b \<in> {1, 2, 3, 4} \<Longrightarrow> \<exists>j \<in> net_members. net_byte j = b \<and> j \<noteq> ''7''"
  by (auto simp: net_members_def net_byte_def)

text \<open>What the agent knows after it has learnt of some peers, each once.\<close>

lemma net_learn_state:
  assumes "distinct (7 # bs)"
  shows "gn_heap (net_learn bs) = map net_record (7 # rev bs)
    \<and> (\<forall>k. isSeen k (gn_store (net_learn bs)) \<longleftrightarrow> k \<in> set (map (recordKey \<circ> net_record) (7 # bs)))
    \<and> mkeys (st_records (gn_store (net_learn bs))) = net_ids bs
    \<and> map (\<lambda>x. en_Record (snd x)) (st_records (gn_store (net_learn bs))) = [0..<Suc (length bs)]
    \<and> list_all (\<lambda>x. en_Active (snd x)) (st_records (gn_store (net_learn bs)))"
  using assms
proof (induction bs)
  case Nil
  show ?case by (auto simp: net_start_def store_put_def isSeen_def newStore_def Let_def net_ids_def)
next
  case (Cons b bs)
  then have IH: "gn_heap (net_learn bs) = map net_record (7 # rev bs)"
    "\<And>k. isSeen k (gn_store (net_learn bs)) \<longleftrightarrow> k \<in> set (map (recordKey \<circ> net_record) (7 # bs))"
    "mkeys (st_records (gn_store (net_learn bs))) = net_ids bs"
    "map (\<lambda>x. en_Record (snd x)) (st_records (gn_store (net_learn bs))) = [0..<Suc (length bs)]"
    "list_all (\<lambda>x. en_Active (snd x)) (st_records (gn_store (net_learn bs)))"
    by simp_all
  have b: "b \<noteq> 7" "b \<notin> set bs" using Cons.prems by auto
  then have new: "\<not> isSeen (recordKey (net_record b)) (gn_store (net_learn bs))"
    unfolding IH(2) by (auto simp: recordKey_inj)
  have "serverID (net_key b) \<notin> set (mkeys (st_records (gn_store (net_learn bs))))"
    unfolding IH(3) using b by (auto simp: net_ids_def)
  then show ?case
    using IH(1,3-5) by (simp add: store_record_new [OF new] IH(2) mput_new net_ids_def) blast
qed

lemma net_check:
  assumes "distinct (7 # b # bs)"
  shows "check_record net_env [b] (net_learn bs) = Ret (Some (net_record b))"
proof -
  have "\<not> isSeen (recordKey (net_record b)) (gn_store (net_learn bs))"
    using net_learn_state [of bs] assms by (auto simp: recordKey_inj)
  moreover have "net_byte ''7'' = 7" by (simp add: net_byte_def)
  ultimately show ?thesis
    using assms net_verifies [of b] by (simp add: check_record_def net_env_def net_js_simps net_mem_simps)
qed

text \<open>A run of the network in which member 7 learns of others.\<close>

lemma net_run:
  assumes "distinct (7 # bs)" and "set bs \<subseteq> {1, 2, 3, 4}"
  shows "\<exists>w. reachable (network_init ex_ed net_js net_mem net_members) (network_step ex_ed net_js net_mem net_members) w
    \<and> nw_nodes w ''7'' = net_learn bs \<and> (\<forall>j. net_record (net_byte j) \<in> set (nw_signed w j))"
  using assms
proof (induction bs)
  case Nil
  have "nw_nodes net_init ''7'' = net_learn []" "\<forall>j. net_record (net_byte j) \<in> set (nw_signed net_init j)"
    by (simp_all add: net_init_def net_byte_def)
  then show ?case using reach_init [of "network_init ex_ed net_js net_mem net_members", OF net_init_ok] by blast
next
  case (Cons b bs)
  then obtain w where w: "reachable (network_init ex_ed net_js net_mem net_members) (network_step ex_ed net_js net_mem net_members) w"
    "nw_nodes w ''7'' = net_learn bs" "\<And>j. net_record (net_byte j) \<in> set (nw_signed w j)" by auto
  have u: "unforged net_js net_mem net_members w (net_record b)"
    unfolding unforged_def net_mem_simps using w(3) by fastforce
  have m: "''7'' \<in> net_members" by (simp add: net_members_def)
  have "check_record (member_env ex_ed net_js net_mem ''7'') [b] (nw_nodes w ''7'') = Ret (Some (net_record b))"
    using net_check [of b bs] Cons.prems(1) by (simp add: w(2) net_env_def)
  from network_reachable_learn [OF w(1) m this u, of 6 "''peer''"] w(2,3) show ?case by (metis fun_upd_same net_learn.simps(2) subsetD)
qed

text \<open>The agent of member 7 by itself, and what it lists.\<close>

lemma net_env_key: "ge_key net_env = net_key 7" "ge_ed net_env = ex_ed" "ge_js net_env = net_js"
  by (simp_all add: net_env_def net_mem_simps net_byte_def)

lemma net_agent_init: "gossip_init net_env (net_start 7)"
  using net_starts [of "''7''"] unfolding gossip_init_def net_env_def by (auto simp: net_byte_def)

lemma net_agent_reachable:
  "init (net_start 7) \<Longrightarrow> distinct (7 # bs) \<Longrightarrow> reachable init (gossip_step net_env) (net_learn bs)"
proof (induction bs)
  case Nil
  then show ?case using reach_init [of init] by simp
next
  case (Cons b bs)
  then show ?case using reachable_learn [OF _ net_check] by simp
qed

lemma net_order: "distinct (7 # bs) \<Longrightarrow> range_order (st_records (gn_store (net_learn bs))) (net_ids bs)"
  using net_learn_state [of bs] by (auto simp: net_ids_def distinct_map inj_on_def range_order_def)

lemma net_active:
  assumes "distinct (7 # bs)"
  shows "map ((!) (gn_heap (net_learn bs))) (activeRecords (net_ids bs) (gn_store (net_learn bs))) = map net_record (7 # rev bs)"
proof -
  note st = net_learn_state [OF assms]
  let ?m = "st_records (gn_store (net_learn bs))"
  have "mwf ?m" using st assms by (auto simp: mwf_def net_ids_def distinct_map inj_on_def)
  then have "range_vals ?m (net_ids bs) = map snd ?m" using range_vals_mkeys [of ?m] st by metis
  moreover have "filter en_Active (map snd ?m) = map snd ?m"
    using st by (simp add: filter_id_conv list_all_iff)
  ultimately have "activeRecords (net_ids bs) (gn_store (net_learn bs)) = [0..<length (gn_heap (net_learn bs))]"
    using st by (simp add: activeRecords_def comp_def)
  then show ?thesis using st map_nth by metis
qed

end
