(* ===== verification/Gossip_Process.thy ===== *)
theory Gossip_Process
  imports Gossip_Network GoConn
begin

text \<open>
  The process of \<^verbatim>\<open>camo-gossip\<close> from the bytes on its connections to the start of \<^verbatim>\<open>main\<close>: the TCP
  listener and the framing of messages (\<^verbatim>\<open>server.go\<close>), the socket of the API (\<^verbatim>\<open>api.go\<close>), and \<^verbatim>\<open>main.go\<close>.
\<close>

section \<open>Connections\<close>

text \<open>
  A gossip connection served without interruption, from the bytes that arrive; the \<open>i\<close>-th line is
  handled at time \<open>clock i\<close>.
\<close>

definition serve_gossip :: "gossip_env \<Rightarrow> instant \<Rightarrow> (nat \<Rightarrow> instant) \<Rightarrow> string \<Rightarrow> bytes \<Rightarrow> gossip \<Rightarrow> gossip go" where
  "serve_gossip env now clock remoteAddr data s =
     (let lines = scan_lines data
      in handleConn_gossip env now remoteAddr (zip (map clock [0..<length lines]) lines) s)"

text \<open>The goroutine of an API connection handles a line; it only reads.\<close>

definition gossip_api_handler :: "gossip_env \<Rightarrow> (bytes \<Rightarrow> goerr + apiRequest) \<Rightarrow> string list \<Rightarrow> bytes \<Rightarrow> gossip
    \<Rightarrow> (gossip \<times> apiResponse) go" where
  "gossip_api_handler env unmarshal ord line s = Ret (s, handle_api_line env ord (unmarshal line) s)"

section \<open>The start of the program\<close>

text \<open>The TCP listener, and the socket of the API, which is served together with the agent's state.\<close>

definition gossip_listen :: "listen_env \<Rightarrow> goerr option" where
  "gossip_listen os = le_listen os"

definition gossip_api_listen :: "listen_env \<Rightarrow> gossip \<Rightarrow> goerr + (gossip, apiResponse) server" where
  "gossip_api_listen os s =
     (case le_mkdir os of
        Some e \<Rightarrow> Inl e
      | None \<Rightarrow> (case le_listen os of Some e \<Rightarrow> Inl e | None \<Rightarrow> Inr (serving s)))"

text \<open>What \<^verbatim>\<open>main\<close> finds outside: the configuration file, the key files by directory, signatures and
  JSON, the clock at its two readings, and the answers of the operating system.\<close>

record gossip_world =
  gw_unmarshal :: "bytes \<Rightarrow> gossipConfig \<Rightarrow> gossipConfig \<times> goerr option"
  gw_config :: read_result
  gw_keys :: "string \<Rightarrow> key_env"
  gw_ed :: ed25519
  gw_js :: codec
  gw_now :: instant
  gw_put :: instant
  gw_srv :: listen_env
  gw_api :: listen_env

text \<open>
  The result: the content of the key file when one is written, the lines sent before the
  listeners start, and the fate of the process.
\<close>

record gossip_run =
  gr_keyfile :: "bytes option"
  gr_sent :: "(string \<times> bytes) list"
  gr_process :: "(gossip_env \<times> (gossip, apiResponse) server) process"

definition gossip_main :: "gossip_world \<Rightarrow> gossip_run go" where
  "gossip_main w =
     (case loadConfig (gw_unmarshal w) (gw_config w) of
        Inl e \<Rightarrow> Ret \<lparr>gr_keyfile = None, gr_sent = [], gr_process = Exit 1\<rparr>
      | Inr cfg \<Rightarrow>
          (case loadOrGenerateKey (gw_keys w (gc_DataDir cfg)) of
             (Inl e, written) \<Rightarrow> Ret \<lparr>gr_keyfile = written, gr_sent = [], gr_process = Exit 1\<rparr>
           | (Inr key, written) \<Rightarrow>
               (let env = \<lparr>ge_ed = gw_ed w, ge_js = gw_js w, ge_key = key, ge_own = 0\<rparr>
                in bind_go (gossip_start env cfg (gw_now w) (gw_put w)) (\<lambda>started.
                     case started of
                       None \<Rightarrow> Ret \<lparr>gr_keyfile = written, gr_sent = [], gr_process = Exit 1\<rparr>
                     | Some s \<Rightarrow> Ret \<lparr>gr_keyfile = written, gr_sent = gn_sent s,
                         gr_process =
                           (case (gossip_listen (gw_srv w), gossip_api_listen (gw_api w) s) of
                              (None, Inr srv) \<Rightarrow> Serving (env, srv)
                            | _ \<Rightarrow> Exit 1)\<rparr>))))"

definition gossip_started :: "gossip_env \<Rightarrow> (gossip, apiResponse) server \<Rightarrow> bool" where
  "gossip_started env s \<longleftrightarrow> (\<exists>w run. gossip_main w = Ret run \<and> gr_process run = Serving (env, s))"

section \<open>Lemmas\<close>

lemma gossip_main_Serving:
  assumes "gossip_main w = Ret run" and "gr_process run = Serving (env, srv)"
  obtains cfg s where "loadConfig (gw_unmarshal w) (gw_config w) = Inr cfg"
    and "loadOrGenerateKey (gw_keys w (gc_DataDir cfg)) = (Inr (ge_key env), gr_keyfile run)"
    and "env = \<lparr>ge_ed = gw_ed w, ge_js = gw_js w, ge_key = ge_key env, ge_own = 0\<rparr>"
    and "gossip_start env cfg (gw_now w) (gw_put w) = Ret (Some s)" and "srv = serving s" and "gr_sent run = gn_sent s"
proof -
  obtain cfg where cfg: "loadConfig (gw_unmarshal w) (gw_config w) = Inr cfg"
    using assms by (cases "loadConfig (gw_unmarshal w) (gw_config w)") (auto simp: gossip_main_def)
  obtain key written where key: "loadOrGenerateKey (gw_keys w (gc_DataDir cfg)) = (Inr key, written)"
    using assms cfg by (cases "loadOrGenerateKey (gw_keys w (gc_DataDir cfg))"; cases "fst (loadOrGenerateKey (gw_keys w (gc_DataDir cfg)))")
      (auto simp: gossip_main_def)
  let ?env = "\<lparr>ge_ed = gw_ed w, ge_js = gw_js w, ge_key = key, ge_own = 0\<rparr>"
  obtain st where st: "gossip_start ?env cfg (gw_now w) (gw_put w) = Ret st"
    using assms(1) cfg key by (auto simp: gossip_main_def bind_go_Ret_iff Let_def)
  obtain s where s: "st = Some s" using assms cfg key st by (cases st) (auto simp: gossip_main_def)
  have run: "run = \<lparr>gr_keyfile = written, gr_sent = gn_sent s, gr_process =
      (case (gossip_listen (gw_srv w), gossip_api_listen (gw_api w) s) of (None, Inr srv) \<Rightarrow> Serving (?env, srv) | _ \<Rightarrow> Exit 1)\<rparr>"
    using assms(1) cfg key st s by (simp add: gossip_main_def)
  then have e: "env = ?env" and "gossip_api_listen (gw_api w) s = Inr srv"
    using assms(2) by (auto split: option.splits sum.splits)
  then have "srv = serving s" by (auto simp: gossip_api_listen_def split: option.splits)
  then show thesis using that [of cfg s] cfg key st s run e by simp
qed

lemma gossip_started_init:
  assumes "gossip_started env s"
  shows "sv_conns s = [] \<and> gossip_init env (sv_state s)"
proof -
  obtain w run where "gossip_main w = Ret run" "gr_process run = Serving (env, s)"
    using assms unfolding gossip_started_def by blast
  then obtain cfg st where "env = \<lparr>ge_ed = gw_ed w, ge_js = gw_js w, ge_key = ge_key env, ge_own = 0\<rparr>"
    "gossip_start env cfg (gw_now w) (gw_put w) = Ret (Some st)" "s = serving st" by (rule gossip_main_Serving)
  then show ?thesis unfolding gossip_init_def serving_def by (metis gossip_env.select_convs(4) server.select_convs)
qed

text \<open>Records in an answer: one per server in a list, and all own or verified.\<close>

definition gossip_answer :: "gossip_env \<Rightarrow> bytes \<Rightarrow> apiResponse \<Rightarrow> bool" where
  "gossip_answer env l r \<longleftrightarrow> distinct (map nr_ServerID (aresp_Records r))
     \<and> (\<forall>x \<in> set (aresp_Records r) \<union> set_option (aresp_Record r).
          nr_ServerID x = serverID (ge_key env) \<or> verifyRecord (ge_ed env) (ge_js env) x = Ret (x, None))"

lemma heap_own_or_verified:
  assumes "gossip_inv env s" and "a < length (gn_heap s)"
  shows "nr_ServerID (gn_heap s ! a) = serverID (ge_key env) \<or> verifyRecord (ge_ed env) (ge_js env) (gn_heap s ! a) = Ret (gn_heap s ! a, None)"
  using gossip_invD(4) [OF assms(1)] gossip_invD(5) [OF assms] by (cases "a = ge_own env") (auto simp: authentic_def)

lemma handle_api_line_answer:
  assumes inv: "gossip_inv env s" and ord: "range_order (st_records (gn_store s)) ord"
  shows "gossip_answer env l (handle_api_line env ord line s)"
proof (cases line)
  case (Inl e)
  then show ?thesis by (simp add: gossip_answer_def handle_api_line_def api_resp0_def)
next
  case (Inr req)
  consider (list) "areq_Command req = cmdListPeers" | (get) "areq_Command req = cmdGetNode"
    | (info) "areq_Command req = cmdNodeInfo" | (other) "areq_Command req \<notin> {cmdListPeers, cmdGetNode, cmdNodeInfo}" by blast
  then show ?thesis
  proof cases
    case list
    then have req: "req = \<lparr>areq_Command = cmdListPeers, areq_ServerID = areq_ServerID req\<rparr>" by simp
    let ?r = "handle_api_line env ord (Inr \<lparr>areq_Command = cmdListPeers, areq_ServerID = areq_ServerID req\<rparr>) s"
    have "aresp_Record ?r = None" by (simp add: handle_api_line_def api_resp0_def)
    then have "gossip_answer env l ?r"
      using list_peers_records [OF inv ord, where sid = "areq_ServerID req"] by (auto simp: gossip_answer_def authentic_def)
    then show ?thesis using Inr req by metis
  next
    case get
    have "a < length (gn_heap s)" if "store_get (areq_ServerID req) (gn_store s) = Some a" for a
      using that gossip_invD(6) [OF inv] by (auto simp: store_get_def split: option.splits if_splits)
    then show ?thesis using Inr get heap_own_or_verified [OF inv]
      by (auto simp: gossip_answer_def handle_api_line_def api_resp0_def cmdGetNode_def cmdListPeers_def split: option.split)
  next
    case info
    then show ?thesis using Inr gossip_invD(4) [OF inv]
      by (simp add: gossip_answer_def handle_api_line_def api_resp0_def cmdGetNode_def cmdListPeers_def cmdNodeInfo_def)
  qed (simp add: Inr gossip_answer_def handle_api_line_def api_resp0_def)
qed

interpretation gossip_api: line_server "gossip_started env" "\<lambda>ord s. range_order (st_records (gn_store s)) ord"
  "gossip_api_handler env unmarshal" "gossip_step env" "\<lambda>l. True" "gossip_inv env" "gossip_answer env" for env unmarshal
proof
  fix s assume "gossip_started env s"
  then show "sv_conns s = [] \<and> gossip_inv env (sv_state s)" using gossip_started_init gossip_inv_start by blast
next
  fix st e l st' r
  assume "gossip_inv env st" "range_order (st_records (gn_store st)) e" "gossip_api_handler env unmarshal e l st = Ret (st', r)"
  then show "gossip_inv env st' \<and> gossip_answer env l r"
    using handle_api_line_answer [of env st e l] by (auto simp: gossip_api_handler_def)
qed (rule agent.inv_step)

section \<open>Framing\<close>

lemma serve_one_line:
  assumes "line_ok line"
  shows "serve_gossip env now clock remoteAddr (line @ [10]) s =
    handle_gossip_line env (clock 0) remoteAddr line (gossip_connect now remoteAddr s)"
proof -
  have "scan_lines (line @ [10]) = [line]" using scan_lines_line [OF assms, of "[]"] by simp
  moreover have "gossip_lines env remoteAddr [] = Ret" by (rule ext) simp
  ultimately show ?thesis by (simp add: serve_gossip_def handleConn_gossip_def)
qed

lemma serve_too_long:
  assumes "10 \<notin> set line" and "maxTokenSize \<le> length line"
  shows "serve_gossip env now clock remoteAddr (line @ [10]) s = Ret (gossip_connect now remoteAddr s)"
  using scan_lines_too_long [OF assms, of "[]"] by (simp add: serve_gossip_def handleConn_gossip_def)

text \<open>What an announcement sends.\<close>

lemma announce_sent:
  assumes "announce env now ord s = Ret s'" and "ge_own env < length (gn_heap s)"
    and "(a, data) \<in> set (drop (length (gn_sent s)) (gn_sent s'))"
  obtains r r' p line where "r = (gn_heap s ! ge_own env)\<lparr>nr_Timestamp := \<lparr>tm_inst = now, tm_offset = 0\<rparr>\<rparr>"
    and "signRecord (ge_ed env) (ge_js env) r (ge_key env) = Ret (r', None)" and "gn_heap s' ! ge_own env = r'"
    and "js_record (ge_js env) r' = Inr p" and "js_message (ge_js env) \<lparr>ms_Type = msgNodeRecord, ms_Payload = p\<rparr> = Inr line"
    and "data = line @ [10]"
proof -
  let ?r = "(gn_heap s ! ge_own env)\<lparr>nr_Timestamp := \<lparr>tm_inst = now, tm_offset = 0\<rparr>\<rparr>"
  obtain r' err where sg: "signRecord (ge_ed env) (ge_js env) ?r (ge_key env) = Ret (r', err)"
    using assms(1) by (auto simp: announce_def Let_def bind_go_Ret_iff)
  let ?s = "s\<lparr>gn_heap := (gn_heap s)[ge_own env := r']\<rparr>"
  have err: "err = None" using assms(1,3) sg by (cases err) (auto simp: announce_def Let_def)
  obtain line where l: "encode_message (ge_js env) msgNodeRecord (js_record (ge_js env) r') = Inr line"
    using assms(1,3) sg err by (cases "encode_message (ge_js env) msgNodeRecord (js_record (ge_js env) r')") (auto simp: announce_def Let_def)
  then have s': "s' = fold (\<lambda>a. sendLine a line) (activeAddrs ord (gn_peers s)) ?s"
    using assms(1) sg err by (simp add: announce_def Let_def)
  have "gn_heap s' = gn_heap ?s" unfolding s' sendLine_fold by simp
  then have "gn_heap s' ! ge_own env = r'" using assms(2) by simp
  moreover have "data = line @ [10]" using assms(3) unfolding s' sendLine_fold by auto
  moreover obtain p where "js_record (ge_js env) r' = Inr p"
    "js_message (ge_js env) \<lparr>ms_Type = msgNodeRecord, ms_Payload = p\<rparr> = Inr line"
    using l by (auto simp: encode_message_def split: sum.splits)
  ultimately show thesis using that sg err by blast
qed

section \<open>An example process\<close>

text \<open>Member 7 of the example network is started with given key files.\<close>

definition ex_world :: "key_env \<Rightarrow> gossip_world" where
  "ex_world keys = \<lparr>gw_unmarshal = (\<lambda>data cfg. (net_cfg 7, None)), gw_config = ReadOK [], gw_keys = (\<lambda>dir. keys), gw_ed = ex_ed,
     gw_js = net_js, gw_now = 5, gw_put = 5, gw_srv = \<lparr>le_mkdir = None, le_listen = None\<rparr>,
     gw_api = \<lparr>le_mkdir = None, le_listen = None\<rparr>\<rparr>"

lemma ex_world_main:
  assumes "loadOrGenerateKey keys = (Inr ex_key, written)"
  shows "gossip_main (ex_world keys) = Ret \<lparr>gr_keyfile = written, gr_sent = [], gr_process = Serving (net_env, serving (net_start 7))\<rparr>"
proof -
  have env: "net_env = \<lparr>ge_ed = ex_ed, ge_js = net_js, ge_key = ex_key, ge_own = 0\<rparr>"
    by (simp add: net_env_def member_env_def net_mem_simps net_byte_def net_key_def ex_key_def)
  have "gossip_start net_env (net_cfg 7) 5 5 = Ret (Some (net_start 7))"
    using net_starts [of "''7''"] by (simp add: net_env_def net_mem_simps net_byte_def)
  then show ?thesis
    using assms by (simp add: gossip_main_def ex_world_def loadConfig_def env gossip_listen_def gossip_api_listen_def Let_def)
      (simp add: net_start_def)
qed

section \<open>Properties\<close>

text \<open>C5. The running agent, from the start of \<^verbatim>\<open>main\<close> on: whatever other nodes send over TCP, however the
  handlers interleave, and whatever clients ask on the socket, every record in every answer ever
  given is the node's own or carries a valid signature of the server it names, and a list has at
  most one record per server.  On each connection the answers belong to the lines read so far, one
  for one and in order.\<close>

theorem api_answers_authentic:
  assumes "reachable (gossip_started env) (server_step (\<lambda>ord s. range_order (st_records (gn_store s)) ord)
      (gossip_api_handler env unmarshal) (gossip_step env) (\<lambda>l. True)) s"
    and "c \<in> set (sv_conns s)"
  shows "length (co_answers c) = length (co_read c) \<and> (\<exists>data. scan_lines data = co_read c @ co_unread c)
    \<and> (\<forall>r \<in> set (co_answers c). distinct (map nr_ServerID (aresp_Records r))
        \<and> (\<forall>x \<in> set (aresp_Records r) \<union> set_option (aresp_Record r).
             nr_ServerID x = serverID (ge_key env) \<or> verifyRecord (ge_ed env) (ge_js env) x = Ret (x, None)))"
proof -
  have "conn_ok (\<lambda>l. True) (gossip_answer env) c"
    using gossip_api.srv.reachable_inv [OF assms(1)] assms(2) by (simp add: list_all_iff)
  then have a: "list_all2 (gossip_answer env) (co_read c) (co_answers c)" "\<exists>data. scan_lines data = co_read c @ co_unread c"
    by (simp_all add: conn_ok_def)
  have "\<exists>l. gossip_answer env l r" if "r \<in> set (co_answers c)" for r
    using a(1) that by (auto simp: list_all2_conv_all_nth in_set_conv_nth)
  then have "\<forall>r \<in> set (co_answers c). gossip_answer env [] r" unfolding gossip_answer_def by blast
  then show ?thesis using a(2) list_all2_lengthD [OF a(1)] unfolding gossip_answer_def by simp
qed

definition ex_list_request :: "bytes \<Rightarrow> goerr + apiRequest" where
  "ex_list_request l = Inr \<lparr>areq_Command = cmdListPeers, areq_ServerID = []\<rparr>"

theorem api_answers_authentic_witness:
  "\<exists>s resp. reachable (gossip_started net_env) (server_step (\<lambda>ord s. range_order (st_records (gn_store s)) ord)
      (gossip_api_handler net_env ex_list_request) (gossip_step net_env) (\<lambda>l. True)) s
    \<and> map co_answers (sv_conns s) = [[resp]] \<and> aresp_Records resp = [net_record 7, net_record 1]
    \<and> verifyRecord ex_ed net_js (net_record 1) = Ret (net_record 1, None)"
proof -
  let ?step = "server_step (\<lambda>ord s. range_order (st_records (gn_store s)) ord) (gossip_api_handler net_env ex_list_request)
    (gossip_step net_env) (\<lambda>l. True)"
  obtain data where "loadOrGenerateKey ex_key_env = (Inr ex_key, Some data)" using ex_key_generated by blast
  from ex_world_main [OF this] have "gossip_started net_env (serving (net_start 7))" unfolding gossip_started_def by force
  then have r0: "reachable (gossip_started net_env) ?step (serving (net_start 7))" by (rule reach_init)
  let ?s = "(serving (net_start 7))\<lparr>sv_state := net_learn [1]\<rparr>"
  have r1: "reachable (gossip_started net_env) ?step ?s"
    using background_steps [OF r0] net_agent_reachable [of "\<lambda>t. t = net_start 7" "[1]"] by (simp add: serving_def)
  let ?resp = "handle_api_line net_env (net_ids [1]) (ex_list_request [65]) (net_learn [1])"
  have h: "gossip_api_handler net_env ex_list_request (net_ids [1]) [65] (sv_state ?s) = Ret (net_learn [1], ?resp)"
    by (simp add: gossip_api_handler_def)
  have ord: "range_order (st_records (gn_store (sv_state ?s))) (net_ids [1])" using net_order [of "[1]"] by simp
  obtain s where s: "reachable (gossip_started net_env) ?step s"
    "sv_conns s = sv_conns ?s @ [\<lparr>co_read = [[65]], co_unread = [], co_answers = [?resp]\<rparr>]"
    using one_line_served [where ok = "\<lambda>ord s. range_order (st_records (gn_store s)) ord" and h = "gossip_api_handler net_env ex_list_request"
        and e = "net_ids [1]" and s = ?s, OF r1 ord h TrueI] by blast
  have rs: "aresp_Records ?resp = [net_record 7, net_record 1]"
    using net_active [of "[1]"] by (simp add: handle_api_line_def ex_list_request_def api_resp0_def)
  have "nr_ServerID (net_record 1) = serverID (ge_key net_env) \<or> verifyRecord (ge_ed net_env) (ge_js net_env) (net_record 1) = Ret (net_record 1, None)"
    using api_answers_authentic [OF s(1), of "\<lparr>co_read = [[65]], co_unread = [], co_answers = [?resp]\<rparr>"] s(2) rs by simp
  then have "verifyRecord ex_ed net_js (net_record 1) = Ret (net_record 1, None)" by (simp add: net_env_key)
  moreover have "map co_answers (sv_conns s) = [[?resp]]" unfolding s(2) by (simp add: serving_def)
  ultimately show ?thesis using s(1) rs by (intro exI [of _ s] exI [of _ ?resp]) simp
qed

text \<open>C14. From node to node: what a node announces and sends to a peer that uses the same coding is read
  there as one line, provided that it is one line of less than 64 KB; the peer verifies the record,
  stores it as active under the sender's identifier and schedules it for forwarding, if it has
  another key than the sender and has not seen the record.  Of the JSON coding it is required that
  this record, and a message with its encoding as the payload, are read back as they were written.\<close>

theorem announcement_delivered:
  assumes "announce envA now ord s = Ret s'" and "(a, data) \<in> set (drop (length (gn_sent s)) (gn_sent s'))"
    and "gossip_inv envA s" and "line_ok (butlast data)"
    and "ge_ed envB = ge_ed envA" and "ge_js envB = ge_js envA" and "ed25519_ok (ge_ed envA)"
    and "ed_keypair (ge_ed envA) (nk_PublicKey (ge_key envA)) (nk_PrivateKey (ge_key envA))"
    and "serverID (ge_key envA) \<noteq> serverID (ge_key envB)"
    and "\<forall>p. js_record (ge_js envA) (gn_heap s' ! ge_own envA) = Inr p \<longrightarrow> un_record (ge_js envA) p = Inr (gn_heap s' ! ge_own envA)"
    and "\<forall>p b. js_record (ge_js envA) (gn_heap s' ! ge_own envA) = Inr p
      \<and> js_message (ge_js envA) \<lparr>ms_Type = msgNodeRecord, ms_Payload = p\<rparr> = Inr b \<longrightarrow>
        un_message (ge_js envA) b = Inr \<lparr>ms_Type = msgNodeRecord, ms_Payload = p\<rparr>"
    and "\<not> isSeen (recordKey (gn_heap s' ! ge_own envA)) (gn_store t)"
  shows "\<exists>t' i. serve_gossip envB now' clock remoteAddr data t = Ret t'
    \<and> mget (st_records (gn_store t')) (serverID (ge_key envA)) = Some \<lparr>en_Record = i, en_LastSeen = clock 0, en_Active = True\<rparr>
    \<and> gn_heap t' ! i = gn_heap s' ! ge_own envA \<and> gn_forwards t' = gn_forwards t @ [(i, remoteAddr)]"
proof -
  obtain r r' p line where r: "r = (gn_heap s ! ge_own envA)\<lparr>nr_Timestamp := \<lparr>tm_inst = now, tm_offset = 0\<rparr>\<rparr>"
    and sg: "signRecord (ge_ed envA) (ge_js envA) r (ge_key envA) = Ret (r', None)" and own: "gn_heap s' ! ge_own envA = r'"
    and p: "js_record (ge_js envA) r' = Inr p" and line: "js_message (ge_js envA) \<lparr>ms_Type = msgNodeRecord, ms_Payload = p\<rparr> = Inr line"
    and data: "data = line @ [10]"
    using announce_sent [OF assms(1) gossip_invD(3) [OF assms(3)] assms(2)] .
  let ?t = "gossip_connect now' remoteAddr t"
  have sid: "nr_ServerID r = serverID (ge_key envA)" using gossip_invD(4) [OF assms(3)] by (simp add: r)
  have un: "un_record (ge_js envB) p = Inr r'" "un_message (ge_js envB) line = Inr \<lparr>ms_Type = msgNodeRecord, ms_Payload = p\<rparr>"
    using assms(6,10,11) p line own by simp_all
  have st: "gn_store ?t = gn_store t" "gn_forwards ?t = gn_forwards t" by (simp_all add: gossip_connect_def)
  have "serve_gossip envB now' clock remoteAddr data t = handleNodeRecord envB (clock 0) p remoteAddr ?t"
    using serve_one_line [of line] assms(4) un(2) by (simp add: data handle_gossip_line_def)
  moreover have "\<exists>t' i. handleNodeRecord envB (clock 0) p remoteAddr ?t = Ret t'
    \<and> mget (st_records (gn_store t')) (serverID (ge_key envA)) = Some \<lparr>en_Record = i, en_LastSeen = clock 0, en_Active = True\<rparr>
    \<and> gn_heap t' ! i = r' \<and> gn_forwards t' = gn_forwards ?t @ [(i, remoteAddr)]"
    by (rule record_accepted [OF _ _ assms(9) sid _ un(1)]) (use assms(5-8,12) sg own st in simp_all)
  ultimately show ?thesis unfolding own st by simp
qed

lemma net_announces:
  "announce (member_env ex_ed net_js net_mem ''8'') 5 [''7''] (net_start 8) =
     Ret ((net_start 8)\<lparr>gn_sent := gn_sent (net_start 8) @ [(''7'', net_code (net_record 8) @ [10])]\<rparr>)"
proof -
  have heap: "gn_heap (net_start 8) = [net_record 8]" by (simp add: net_start_def)
  have ts: "(net_record 8)\<lparr>nr_Timestamp := \<lparr>tm_inst = 5, tm_offset = 0\<rparr>\<rparr> = net_record 8"
    by (simp add: net_record_def net_announced_def own_record_def)
  have "signRecord ex_ed net_js (net_record 8) (net_key 8) = signRecord ex_ed net_js (net_announced 8 5) (net_key 8)"
    by (simp add: signRecord_def net_unsigned)
  then have sg: "signRecord ex_ed net_js (net_record 8) (net_key 8) = Ret (net_record 8, None)" using net_sign by simp
  have key: "me_key (net_mem ''8'') = net_key 8" by (simp add: net_mem_simps net_byte_def)
  have peers: "activeAddrs [''7''] (gn_peers (net_start 8)) = [''7'']"
    by (simp add: net_start_def newPeerManager_def activeAddrs_def)
  have fr: "(net_start 8)\<lparr>gn_heap := [net_record 8]\<rparr> = net_start 8" using heap by simp
  show ?thesis
    by (simp add: announce_def Let_def heap ts key sg encode_message_def net_js_simps peers fr sendLine_def)
qed

theorem announcement_delivered_witness:
  "\<exists>t' i. serve_gossip net_env 6 (\<lambda>n. 6) ''q'' (net_code (net_record 8) @ [10]) (net_start 7) = Ret t'
    \<and> mget (st_records (gn_store t')) (serverID (net_key 8)) = Some \<lparr>en_Record = i, en_LastSeen = 6, en_Active = True\<rparr>
    \<and> gn_heap t' ! i = net_record 8"
proof -
  let ?env = "member_env ex_ed net_js net_mem ''8''"
  have key: "me_key (net_mem ''8'') = net_key 8" "me_key (net_mem ''7'') = net_key 7"
    by (simp_all add: net_mem_simps net_byte_def)
  have "gossip_init ?env (net_start 8)"
    using net_starts [of "''8''"] unfolding gossip_init_def by (auto simp: net_byte_def)
  then have inv: "gossip_inv ?env (net_start 8)" by (rule gossip_inv_start)
  have heap: "gn_heap (net_start 8) = [net_record 8]" by (simp add: net_start_def)
  have code: "net_code (net_record 8) = [8, 1, 1, 1, 1, 1, 1]"
    using net_code_announced [of 8 5] by (simp add: net_code_def eval_nat_numeral)
  have ok: "line_ok (butlast (net_code (net_record 8) @ [10]))" by (simp add: code line_ok_def maxTokenSize_def)
  have new: "\<not> isSeen (recordKey (net_record 8)) (gn_store (net_start 7))"
    using net_learn_state [of "[]"] by (simp add: recordKey_inj)
  have un: "\<forall>p. js_record net_js (net_record 8) = Inr p \<longrightarrow> un_record net_js p = Inr (net_record 8)"
    by (simp add: net_js_simps code)
  have um: "\<forall>p b. js_record net_js (net_record 8) = Inr p \<and> js_message net_js \<lparr>ms_Type = msgNodeRecord, ms_Payload = p\<rparr> = Inr b \<longrightarrow>
      un_message net_js b = Inr \<lparr>ms_Type = msgNodeRecord, ms_Payload = p\<rparr>"
    by (auto simp: net_js_simps)
  show ?thesis
    using announcement_delivered [OF net_announces, of "''7''" "net_code (net_record 8) @ [10]" net_env "net_start 7" 6 "\<lambda>n. 6" "''q''"]
      inv ok new ex_ed_ok net_key_pair [of 8] un um by (simp add: net_env_def key heap) blast
qed

text \<open>A message that does not fit ends the connection: a line of 64 KB or more is not read, nor is anything
  after it, and the sender is not told; the peer only remembers the address it came from.\<close>

theorem long_line_lost:
  assumes "10 \<notin> set line" and "65536 \<le> length line"
  shows "serve_gossip env now clock remoteAddr (line @ 10 # rest) s = Ret (gossip_connect now remoteAddr s)"
  using scan_lines_too_long [OF assms(1), of rest] assms(2) by (simp add: serve_gossip_def handleConn_gossip_def maxTokenSize_def)

theorem long_line_lost_witness:
  "serve_gossip net_env 0 (\<lambda>i. 0) ''p'' (replicate 70000 65 @ 10 # [65, 10]) (net_start 7) = Ret (gossip_connect 0 ''p'' (net_start 7))"
  by (rule long_line_lost) simp_all

text \<open>C29. A restart keeps the identity: when the first start generated a key and the next one finds the file
  that was written, and both serve with the same configuration, the second one runs under the same
  key, announces itself under the same server identifier and writes no file.  The JSON coding is
  only relied on for the entry of the generated key, two base64 texts.\<close>

theorem restart_keeps_identity:
  assumes "gossip_main w = Ret run" and "gr_process run = Serving (env, srv)" and "gr_keyfile run = Some data"
    and "gossip_main w' = Ret run'" and "gr_process run' = Serving (env', srv')"
    and "loadConfig (gw_unmarshal w') (gw_config w') = loadConfig (gw_unmarshal w) (gw_config w)"
    and "\<forall>dir. ke_file (gw_keys w' dir) = ReadOK data \<and> ke_unmarshal (gw_keys w' dir) = ke_unmarshal (gw_keys w dir)"
    and "\<forall>dir d. ke_marshal (gw_keys w dir) (persisted (ge_key env)) = Inr d \<longrightarrow>
      ke_unmarshal (gw_keys w dir) d = Inr (persisted (ge_key env))"
  shows "ge_key env' = ge_key env \<and> gr_keyfile run' = None
    \<and> nr_ServerID (gn_heap (sv_state srv') ! 0) = nr_ServerID (gn_heap (sv_state srv) ! 0)"
proof -
  obtain cfg where cfg: "loadConfig (gw_unmarshal w) (gw_config w) = Inr cfg"
    and key: "loadOrGenerateKey (gw_keys w (gc_DataDir cfg)) = (Inr (ge_key env), Some data)"
    using gossip_main_Serving [OF assms(1,2)] assms(3) by metis
  have key': "loadOrGenerateKey (gw_keys w' (gc_DataDir cfg)) = (Inr (ge_key env'), gr_keyfile run')"
    using gossip_main_Serving [OF assms(4,5)] assms(6) cfg by (metis Inr_inject)
  have k: "ge_key env' = ge_key env \<and> gr_keyfile run' = None"
    using loadOrGenerateKey_again [OF key, of "gw_keys w' (gc_DataDir cfg)"] assms(7,8) key' by auto
  have id: "nr_ServerID (gn_heap (sv_state srv) ! 0) = serverID (ge_key env)" if "gossip_started env srv" for env srv
  proof -
    have "gossip_init env (sv_state srv)" using gossip_started_init [OF that] by blast
    then show ?thesis using gossip_invD(4) [OF gossip_inv_start] by (metis gossip_init_def)
  qed
  have "gossip_started env srv" "gossip_started env' srv'" using assms(1,2,4,5) unfolding gossip_started_def by blast+
  then show ?thesis using id k by metis
qed

theorem restart_keeps_identity_witness:
  "\<exists>data run run' env' srv'. gossip_main (ex_world ex_key_env) = Ret run \<and> gr_keyfile run = Some data
    \<and> gossip_main (ex_world (ex_key_env\<lparr>ke_file := ReadOK data\<rparr>)) = Ret run' \<and> gr_process run' = Serving (env', srv')
    \<and> ge_key env' = ex_key \<and> gr_keyfile run' = None"
proof -
  obtain data where d: "loadOrGenerateKey ex_key_env = (Inr ex_key, Some data)" using ex_key_generated by blast
  let ?keys = "ex_key_env\<lparr>ke_file := ReadOK data\<rparr>"
  have d': "loadOrGenerateKey ?keys = (Inr ex_key, None)"
    by (rule loadOrGenerateKey_again [OF d]) (simp_all add: ex_key_coding)
  note m = ex_world_main [OF d] and m' = ex_world_main [OF d']
  have key: "ge_key net_env = ex_key"
    by (simp add: net_env_def net_mem_simps net_byte_def net_key_def ex_key_def)
  have c: "loadConfig (gw_unmarshal (ex_world k)) (gw_config (ex_world k)) = Inr (net_cfg 7)" for k
    by (simp add: ex_world_def loadConfig_def)
  have w: "gw_keys (ex_world k) dir = k" for k dir by (simp add: ex_world_def)
  have "ge_key net_env = ge_key net_env \<and> gr_keyfile \<lparr>gr_keyfile = None, gr_sent = [], gr_process = Serving (net_env, serving (net_start 7))\<rparr> = None"
    using restart_keeps_identity [OF m _ _ m', of net_env "serving (net_start 7)" data net_env "serving (net_start 7)"]
    by (simp add: c w ex_key_coding)
  then show ?thesis using m m' key by (intro exI [of _ data]) auto
qed

end
