(* ===== verification/Gossip_Flood.thy ===== *)
theory Gossip_Flood
  imports Gossip_Network
begin

text \<open>
  How records spread.  Every agent sends what it learns to the peers of its configuration, once.  In
  a settled network, in which every message to a member has been handled and no handler is
  left with work, the record that a member announced at its start is known to all members that
  can be reached through the configured peers.
\<close>

section \<open>What was sent\<close>

definition was_sent :: "codec \<Rightarrow> gossip \<Rightarrow> string \<Rightarrow> NodeRecord \<Rightarrow> bool" where
  "was_sent js s p r \<longleftrightarrow> (\<exists>b. encode_message js msgNodeRecord (js_record js r) = Inr b \<and> (p, b @ [10]) \<in> set (gn_sent s))"

lemma was_sent_mono: "was_sent js s p r \<Longrightarrow> set (gn_sent s) \<subseteq> set (gn_sent t) \<Longrightarrow> was_sent js t p r"
  by (auto simp: was_sent_def)

lemma forward_fold:
  "fold (\<lambda>a s. if a = x then s else sendLine a l s) as s =
     s\<lparr>gn_sent := gn_sent s @ map (\<lambda>a. (a, l @ [10])) (filter (\<lambda>a. a \<noteq> x) as)\<rparr>"
  by (induction as arbitrary: s) (simp_all add: sendLine_def)

lemma forwardRecord_sends:
  assumes "encode_message (ge_js env) msgNodeRecord (js_record (ge_js env) r) = Inr b" and "p \<in> set (activeAddrs ord (gn_peers s))" and "p \<noteq> x"
  shows "was_sent (ge_js env) (forwardRecord env ord r x s) p r"
  using assms by (auto simp: was_sent_def forwardRecord_def forward_fold)

lemma forwardRecord_sent: "set (gn_sent s) \<subseteq> set (gn_sent (forwardRecord env ord r x s))"
  by (auto simp: forwardRecord_def forward_fold split: sum.split)

lemma sendHeartbeat_sent: "sendHeartbeat env now ord s = Ret t \<Longrightarrow> set (gn_sent s) \<subseteq> set (gn_sent t)"
  by (auto simp: sendHeartbeat_def Let_def bind_go_Ret_iff sendLine_fold split: if_splits sum.splits)

lemma announce_sends_frame:
  assumes "announce env now ord s = Ret t"
  shows "set (gn_sent s) \<subseteq> set (gn_sent t)"
    and "gn_store t = gn_store s" "gn_peers t = gn_peers s" "gn_forwards t = gn_forwards s" "gn_pending t = gn_pending s"
      "gn_started t = gn_started s" and "\<And>a. a \<noteq> ge_own env \<Longrightarrow> gn_heap t ! a = gn_heap s ! a"
  using assms by (auto simp: announce_def Let_def bind_go_Ret_iff sendLine_fold split: if_splits sum.splits)

section \<open>The invariant of one agent\<close>

text \<open>
  \<open>N\<close> are the addresses of members, \<open>boot\<close> the configured peers, \<open>r0\<close> the record announced at the start.
  As long as no record expires, the servers of all records that were stored have an entry.
\<close>

definition decoded :: "codec \<Rightarrow> NodeRecord \<Rightarrow> bool" where
  "decoded js r \<longleftrightarrow> (\<exists>payload. un_record js payload = Inr r)"

definition passed_on :: "codec \<Rightarrow> string set \<Rightarrow> string list \<Rightarrow> gossip \<Rightarrow> addr \<Rightarrow> bool" where
  "passed_on js N boot s a \<longleftrightarrow>
     a \<in> fst ` set (gn_forwards s) \<or> (\<forall>p \<in> set boot \<inter> N. was_sent js s p (gn_heap s ! a))"

definition flood_inv :: "gossip_env \<Rightarrow> string set \<Rightarrow> string list \<Rightarrow> NodeRecord \<Rightarrow> gossip \<Rightarrow> bool" where
  "flood_inv env N boot r0 s \<longleftrightarrow>
     (\<forall>p \<in> set boot. mget (gn_peers s) p \<noteq> None \<and> was_sent (ge_js env) s p r0)
   \<and> isSeen (recordKey r0) (gn_store s)
   \<and> (\<forall>k. isSeen k (gn_store s) \<longrightarrow> k = recordKey r0 \<or> (\<exists>a \<in> set (gn_started s). recordKey (gn_heap s ! a) = k))
   \<and> (\<forall>a \<in> set (gn_started s). passed_on (ge_js env) N boot s a \<and> decoded (ge_js env) (gn_heap s ! a))
   \<and> mget (st_records (gn_store s)) (nr_ServerID r0) \<noteq> None
   \<and> (\<forall>a \<in> set (gn_started s). mget (st_records (gn_store s)) (nr_ServerID (gn_heap s ! a)) \<noteq> None)
   \<and> (\<forall>x \<in> set (gn_forwards s). snd x \<notin> N)
   \<and> (\<forall>x \<in> set (gn_pending s). snd x \<notin> N \<and> decoded (ge_js env) (fst x))"

text \<open>Steps that forward nothing keep it.\<close>

lemma flood_inv_frame:
  assumes inv: "flood_inv env N boot r0 s" and own: "\<And>a. a \<in> set (gn_started s) \<Longrightarrow> gn_heap t ! a = gn_heap s ! a"
    and seen: "\<And>k. isSeen k (gn_store t) = isSeen k (gn_store s)" and "gn_started t = gn_started s" and "gn_forwards t = gn_forwards s"
    and pend: "\<And>x. x \<in> set (gn_pending t) \<Longrightarrow> snd x \<notin> N \<and> decoded (ge_js env) (fst x)"
    and peers: "\<And>p. mget (gn_peers s) p \<noteq> None \<Longrightarrow> mget (gn_peers t) p \<noteq> None" and sent: "set (gn_sent s) \<subseteq> set (gn_sent t)"
    and kept: "\<And>i. mget (st_records (gn_store s)) i \<noteq> None \<Longrightarrow> mget (st_records (gn_store t)) i \<noteq> None"
  shows "flood_inv env N boot r0 t"
proof -
  have "passed_on (ge_js env) N boot t a" if "passed_on (ge_js env) N boot s a" "a \<in> set (gn_started s)" for a
    using that own [OF that(2)] assms(5) was_sent_mono [OF _ sent] unfolding passed_on_def by auto
  then show ?thesis
    using inv own seen assms(4,5) pend peers was_sent_mono [OF _ sent] kept unfolding flood_inv_def by simp
qed

lemma flood_inv_insert:
  assumes inv: "flood_inv env N boot r0 s" and g: "gossip_inv env s" and p: "gn_pending s = pre @ (r, fr) # post"
  shows "flood_inv env N boot r0 (store_record now r fr (s\<lparr>gn_pending := pre @ post\<rparr>))"
proof -
  let ?u = "s\<lparr>gn_pending := pre @ post\<rparr>"
  have u: "flood_inv env N boot r0 ?u" using inv p unfolding flood_inv_def passed_on_def was_sent_def by auto
  have r: "fr \<notin> N" "decoded (ge_js env) r" using inv p unfolding flood_inv_def by auto
  show ?thesis
  proof (cases "isSeen (recordKey r) (gn_store ?u)")
    case True
    then have "store_record now r fr ?u = ?u" by (simp add: store_record_def new_record_def store_put_def Let_def)
    then show ?thesis using u by simp
  next
    case False
    let ?t = "store_record now r fr ?u"
    note t = store_record_new [OF False, where now = now and fromAddr = fr]
    have sent: "gn_sent ?t = gn_sent s" by (simp add: store_record_def new_record_def Let_def split: prod.split)
    have lt: "a < length (gn_heap s)" if "a \<in> set (gn_started s)" for a using gossip_invD(9) [OF g that] by blast
    have old: "gn_heap ?t ! a = gn_heap s ! a" if "a \<in> set (gn_started s)" for a
      using lt [OF that] by (simp add: t(1) nth_append)
    have new: "gn_heap ?t ! length (gn_heap s) = r" by (simp add: t(1))
    have seen: "isSeen k (gn_store ?t) \<longleftrightarrow> k = recordKey r \<or> isSeen k (gn_store s)" for k
      using t(7) by simp
    have passed: "passed_on (ge_js env) N boot ?t a \<and> decoded (ge_js env) (gn_heap ?t ! a)" if "a \<in> set (gn_started ?t)" for a
    proof (cases "a = length (gn_heap s)")
      case True
      then show ?thesis using r(2) new by (auto simp: passed_on_def t(3))
    next
      case False
      then have "a \<in> set (gn_started s)" using that by (simp add: t(4))
      then show ?thesis
        using inv old [of a] unfolding flood_inv_def passed_on_def was_sent_def sent by (auto simp: t(3))
    qed
    have keys: "k = recordKey r0 \<or> (\<exists>a \<in> set (gn_started ?t). recordKey (gn_heap ?t ! a) = k)" if "isSeen k (gn_store ?t)" for k
    proof (cases "k = recordKey r")
      case True
      then show ?thesis using new by (auto simp: t(4))
    next
      case False
      then have "k = recordKey r0 \<or> (\<exists>a \<in> set (gn_started s). recordKey (gn_heap s ! a) = k)"
        using that seen inv unfolding flood_inv_def by blast
      then show ?thesis using old by (auto simp: t(4))
    qed
    have ws: "was_sent js ?t p x = was_sent js s p x" for js p x by (simp add: was_sent_def sent)
    have kept: "mget (st_records (gn_store ?t)) i \<noteq> None" if "mget (st_records (gn_store s)) i \<noteq> None \<or> i = nr_ServerID r" for i
      using that by (auto simp: t(2))
    have entries: "mget (st_records (gn_store ?t)) (nr_ServerID (gn_heap ?t ! a)) \<noteq> None" if "a \<in> set (gn_started ?t)" for a
    proof (cases "a = length (gn_heap s)")
      case True
      then show ?thesis using kept new by simp
    next
      case False
      then have "a \<in> set (gn_started s)" using that by (simp add: t(4))
      then show ?thesis using inv kept old [of a] unfolding flood_inv_def by simp
    qed
    have first: "mget (st_records (gn_store ?t)) (nr_ServerID r0) \<noteq> None" using inv kept unfolding flood_inv_def by blast
    show ?thesis
      using u passed keys seen r(1) entries first unfolding flood_inv_def ws by (simp add: t(3,5,6) was_sent_def)
  qed
qed

text \<open>A forwarding goroutine sends to all configured members, since no record came from one of their addresses.\<close>

lemma flood_inv_forward:
  assumes inv: "flood_inv env N boot r0 s" and g: "gossip_inv env s" and f: "gn_forwards s = pre @ (a, fr) # post"
    and ord: "range_order (gn_peers s) ord" and enc: "\<And>r. decoded (ge_js env) r \<Longrightarrow> \<exists>b. encode_message (ge_js env) msgNodeRecord (js_record (ge_js env) r) = Inr b"
  shows "flood_inv env N boot r0 (forwardRecord env ord (gn_heap s ! a) fr (s\<lparr>gn_forwards := pre @ post\<rparr>))"
proof -
  let ?u = "s\<lparr>gn_forwards := pre @ post\<rparr>"
  let ?t = "forwardRecord env ord (gn_heap s ! a) fr ?u"
  have "only_sent ?u ?t" by (rule only_sent_forward)
  from only_sent_fields [OF this] have t: "gn_heap ?t = gn_heap s" "gn_store ?t = gn_store s" "gn_peers ?t = gn_peers s"
    "gn_forwards ?t = pre @ post" "gn_pending ?t = gn_pending s" "gn_started ?t = gn_started s" by simp_all
  have sent: "set (gn_sent s) \<subseteq> set (gn_sent ?t)" using forwardRecord_sent [of ?u] by simp
  have "a \<in> set (gn_started s)" using gossip_invD(11) [OF g] f by auto
  then have "decoded (ge_js env) (gn_heap s ! a)" using inv unfolding flood_inv_def by blast
  then obtain b where b: "encode_message (ge_js env) msgNodeRecord (js_record (ge_js env) (gn_heap s ! a)) = Inr b"
    using enc by blast
  have a: "was_sent (ge_js env) ?t p (gn_heap s ! a)" if p: "p \<in> set boot \<inter> N" for p
  proof (rule forwardRecord_sends [OF b])
    have known: "mget (gn_peers s) p \<noteq> None" using inv p unfolding flood_inv_def by blast
    then have "p \<in> set ord" using range_orderD(1) [OF ord] gossip_invD(2) [OF g] by (simp add: peers_inv_def)
    then show "p \<in> set (activeAddrs ord (gn_peers ?u))"
      using known gossip_invD(2) [OF g] by (auto simp: activeAddrs_def peers_inv_def)
    show "p \<noteq> fr" using inv f p unfolding flood_inv_def by auto
  qed
  have "passed_on (ge_js env) N boot ?t c" if "passed_on (ge_js env) N boot s c" for c
  proof (cases "c = a")
    case True
    then show ?thesis using a by (simp add: passed_on_def t(1))
  next
    case False
    then show ?thesis
      using that was_sent_mono [OF _ sent] by (auto simp: passed_on_def t(1,4) f)
  qed
  then show ?thesis
    using inv was_sent_mono [OF _ sent] unfolding flood_inv_def t by (auto simp: f)
qed

lemma flood_inv_step:
  assumes inv: "flood_inv env N boot r0 s" and g: "gossip_inv env s" and step: "gossip_step env s t"
    and far: "\<And>x. x \<in> set (gn_pending t) \<Longrightarrow> snd x \<notin> N"
    and kept: "\<And>i. mget (st_records (gn_store s)) i \<noteq> None \<Longrightarrow> mget (st_records (gn_store t)) i \<noteq> None"
    and enc: "\<And>r. decoded (ge_js env) r \<Longrightarrow> \<exists>b. encode_message (ge_js env) msgNodeRecord (js_record (ge_js env) r) = Inr b"
  shows "flood_inv env N boot r0 t"
proof -
  have pend: "decoded (ge_js env) (fst x)" if "x \<in> set (gn_pending t)" for x
  proof -
    have "x \<in> set (gn_pending s) \<or> (\<exists>payload. un_record (ge_js env) payload = Inr (fst x))"
      using gossip_step_records [OF g step] that unfolding records_follow_def by blast
    then show ?thesis using inv unfolding flood_inv_def decoded_def by blast
  qed
  note frame = flood_inv_frame [OF inv, of t, OF _ _ _ _ _ _ _ kept]
  show ?thesis
    using step
  proof cases
    case (connect now fr)
    then show ?thesis using far pend by (intro frame) (auto simp: gossip_connect_def peer_add_def peer_seen_def)
  next
    case (check payload r fr)
    then show ?thesis using far pend by (intro frame) auto
  next
    case (insert pre r fr post now)
    then show ?thesis using flood_inv_insert [OF inv g] by simp
  next
    case (forward pre a fr post ord)
    then show ?thesis using flood_inv_forward [OF inv g _ _ enc] by simp
  next
    case (heartbeat payload sid fr)
    then show ?thesis using far pend by (intro frame) auto
  next
    case (refresh pre sid fr post now)
    then show ?thesis using far pend
      by (intro frame) (auto simp: refresh_heartbeat_def store_heartbeat_def isSeen_def peer_seen_def)
  next
    case (expire ord now)
    then show ?thesis using far pend by (intro frame) (auto simp: isSeen_def)
  next
    case (send_heartbeat ord now)
    from only_sent_fields [OF only_sent_heartbeat [OF send_heartbeat(2)]] show ?thesis
      using far pend sendHeartbeat_sent [OF send_heartbeat(2)] by (intro frame) simp_all
  next
    case (reannounce ord now)
    note t = announce_sends_frame [OF reannounce(2)]
    show ?thesis
      using far pend t gossip_invD(9) [OF g] by (intro frame) auto
  qed
qed

lemma newPeerManager_knows: "p \<in> set as \<Longrightarrow> mget (newPeerManager now as) p \<noteq> None"
proof -
  have "p \<in> set as \<or> mget pm p \<noteq> None \<Longrightarrow>
      mget (fold (\<lambda>a. mput a \<lparr>pe_Addr = a, pe_LastSeen = now, pe_Active = True\<rparr>) as pm) p \<noteq> None" for pm
    by (induction as arbitrary: pm) auto
  then show "p \<in> set as \<Longrightarrow> mget (newPeerManager now as) p \<noteq> None" unfolding newPeerManager_def by blast
qed

lemma flood_inv_start:
  assumes st: "gossip_start env cfg now now' = Ret (Some s)"
    and enc: "encode_message (ge_js env) msgNodeRecord (js_record (ge_js env) (gn_heap s ! 0)) = Inr b"
  shows "flood_inv env N (gc_BootstrapPeers cfg) (gn_heap s ! 0) s"
proof -
  obtain r where r: "signRecord (ge_ed env) (ge_js env) (own_record cfg (ge_key env) now) (ge_key env) = Ret (r, None)"
    using st by (auto simp: gossip_start_def bind_go_Ret_iff split: if_splits)
  have heap: "gn_heap s ! 0 = r" using st r by (auto simp: gossip_start_def sendLine_fold Let_def)
  obtain p where p: "js_record (ge_js env) r = Inr p" "js_message (ge_js env) \<lparr>ms_Type = msgNodeRecord, ms_Payload = p\<rparr> = Inr b"
    using enc heap by (auto simp: encode_message_def split: sum.splits)
  have s: "s = \<lparr>gn_heap = [r], gn_store = fst (store_put [r] now' 0 newStore), gn_peers = newPeerManager now' (gc_BootstrapPeers cfg),
      gn_sent = map (\<lambda>a. (a, b @ [10])) (gc_BootstrapPeers cfg), gn_forwards = [], gn_pending = [], gn_beats = [], gn_started = []\<rparr>"
    using st r p by (simp add: gossip_start_def sendLine_fold Let_def)
  have "isSeen k newStore = False" for k by (simp add: isSeen_def newStore_def)
  moreover have "was_sent (ge_js env) s a r" if "a \<in> set (gc_BootstrapPeers cfg)" for a
    using that enc heap unfolding was_sent_def by (auto simp: s)
  moreover have "\<forall>a \<in> set (gc_BootstrapPeers cfg). mget (gn_peers s) a \<noteq> None"
    using newPeerManager_knows by (auto simp: s)
  ultimately show ?thesis
    unfolding heap flood_inv_def by (simp add: s isSeen_put) (simp add: store_put_def isSeen_def newStore_def Let_def)
qed

section \<open>The network\<close>

text \<open>
  The addresses that incoming connections come from are not those that members listen on, and no
  expiry pass removes a record, as in a network that has run for less than 24 hours.  The record of
  a member's start is the first one it signed.
\<close>

definition flood_step :: "ed25519 \<Rightarrow> codec \<Rightarrow> (string \<Rightarrow> member) \<Rightarrow> string set \<Rightarrow> network \<Rightarrow> network \<Rightarrow> bool" where
  "flood_step ed js mem N w w' \<longleftrightarrow> network_step ed js mem N w w' \<and> (\<forall>i \<in> N. (\<forall>x \<in> set (gn_pending (nw_nodes w' i)). snd x \<notin> N)
     \<and> (\<forall>sid. mget (st_records (gn_store (nw_nodes w i))) sid \<noteq> None \<longrightarrow> mget (st_records (gn_store (nw_nodes w' i))) sid \<noteq> None))"

text \<open>
  What is relied on of the coding: decoded records and first announcements can be encoded and are
  read back as they were written, and so is a message whose payload is the encoding of such a record
  (payloads of other forms may be normalised).
\<close>

definition codec_exact :: "codec \<Rightarrow> (NodeRecord \<Rightarrow> bool) \<Rightarrow> bool" where
  "codec_exact js D \<longleftrightarrow> (\<forall>r. decoded js r \<longrightarrow> D r)
   \<and> (\<forall>r. D r \<longrightarrow> (\<exists>b. encode_message js msgNodeRecord (js_record js r) = Inr b))
   \<and> (\<forall>r p. D r \<longrightarrow> js_record js r = Inr p \<longrightarrow> un_record js p = Inr r)
   \<and> (\<forall>r p b. D r \<longrightarrow> js_record js r = Inr p \<longrightarrow> js_message js \<lparr>ms_Type = msgNodeRecord, ms_Payload = p\<rparr> = Inr b \<longrightarrow>
        un_message js b = Inr \<lparr>ms_Type = msgNodeRecord, ms_Payload = p\<rparr>)"

definition flood_net_inv :: "ed25519 \<Rightarrow> codec \<Rightarrow> (string \<Rightarrow> member) \<Rightarrow> string set \<Rightarrow> (NodeRecord \<Rightarrow> bool) \<Rightarrow> network \<Rightarrow> bool" where
  "flood_net_inv ed js mem N D w \<longleftrightarrow> (\<forall>i \<in> N. nw_signed w i \<noteq> [] \<and> gossip_inv (member_env ed js mem i) (nw_nodes w i)
     \<and> nr_ServerID (hd (nw_signed w i)) = serverID (me_key (mem i)) \<and> D (hd (nw_signed w i))
     \<and> verifyRecord ed js (hd (nw_signed w i)) = Ret (hd (nw_signed w i), None)
     \<and> flood_inv (member_env ed js mem i) N (gc_BootstrapPeers (me_cfg (mem i))) (hd (nw_signed w i)) (nw_nodes w i))"

text \<open>The start of a network whose members have proper keys and whose first announcements are among the
  records \<open>D\<close>.\<close>

definition flood_init :: "ed25519 \<Rightarrow> codec \<Rightarrow> (string \<Rightarrow> member) \<Rightarrow> string set \<Rightarrow> (NodeRecord \<Rightarrow> bool) \<Rightarrow> network \<Rightarrow> bool" where
  "flood_init ed js mem N D w \<longleftrightarrow> network_init ed js mem N w \<and> ed25519_ok ed
     \<and> (\<forall>i \<in> N. D (hd (nw_signed w i)) \<and> ed_keypair ed (nk_PublicKey (me_key (mem i))) (nk_PrivateKey (me_key (mem i))))"

lemma started_verifies:
  assumes st: "gossip_start env cfg now now' = Ret (Some s)" and "ed25519_ok (ge_ed env)"
    and "ed_keypair (ge_ed env) (nk_PublicKey (ge_key env)) (nk_PrivateKey (ge_key env))"
  shows "verifyRecord (ge_ed env) (ge_js env) (gn_heap s ! 0) = Ret (gn_heap s ! 0, None)"
proof -
  let ?own = "own_record cfg (ge_key env) now"
  obtain r where r: "signRecord (ge_ed env) (ge_js env) ?own (ge_key env) = Ret (r, None)"
    using st by (auto simp: gossip_start_def bind_go_Ret_iff split: if_splits)
  have heap: "gn_heap s ! 0 = r" using st r by (auto simp: gossip_start_def sendLine_fold Let_def)
  obtain data where "js_record (ge_js env) (?own\<lparr>nr_Signature := []\<rparr>) = Inr data"
    using r by (auto simp: signRecord_def Let_def split: sum.splits)
  from signed_verifies [OF assms(2,3) _ this] obtain sig where
    "\<And>s. signRecord (ge_ed env) (ge_js env) (?own\<lparr>nr_Signature := s\<rparr>) (ge_key env) = Ret (?own\<lparr>nr_Signature := sig\<rparr>, None)"
    and v: "verifyRecord (ge_ed env) (ge_js env) (?own\<lparr>nr_Signature := sig\<rparr>) = Ret (?own\<lparr>nr_Signature := sig\<rparr>, None)"
    by (auto simp: own_record_def)
  from this(1) [of "nr_Signature ?own"] r have "r = ?own\<lparr>nr_Signature := sig\<rparr>" by simp
  then show ?thesis using v heap by simp
qed

lemma flood_net_inv_init:
  assumes "codec_exact js D" and "flood_init ed js mem N D w"
  shows "flood_net_inv ed js mem N D w"
  unfolding flood_net_inv_def
proof (intro ballI)
  fix i assume i: "i \<in> N"
  let ?env = "member_env ed js mem i" and ?s = "nw_nodes w i"
  obtain now now' where st: "gossip_start ?env (me_cfg (mem i)) now now' = Ret (Some ?s)" and sg: "nw_signed w i = [gn_heap ?s ! 0]"
    using assms(2) i unfolding flood_init_def network_init_def by blast
  have inv: "gossip_inv ?env ?s" by (rule gossip_inv_start) (use st in \<open>auto simp: gossip_init_def\<close>)
  obtain b where "encode_message js msgNodeRecord (js_record js (gn_heap ?s ! 0)) = Inr b"
    using assms i sg unfolding codec_exact_def flood_init_def by force
  then have "flood_inv ?env N (gc_BootstrapPeers (me_cfg (mem i))) (gn_heap ?s ! 0) ?s"
    using flood_inv_start [OF st] by simp
  moreover have D: "D (gn_heap ?s ! 0)" using assms(2) i sg unfolding flood_init_def by (metis list.sel(1))
  moreover have "verifyRecord ed js (gn_heap ?s ! 0) = Ret (gn_heap ?s ! 0, None)"
    using started_verifies [OF st] assms(2) i unfolding flood_init_def by simp
  ultimately show "nw_signed w i \<noteq> [] \<and> gossip_inv ?env ?s
     \<and> nr_ServerID (hd (nw_signed w i)) = serverID (me_key (mem i)) \<and> D (hd (nw_signed w i))
     \<and> verifyRecord ed js (hd (nw_signed w i)) = Ret (hd (nw_signed w i), None)
     \<and> flood_inv ?env N (gc_BootstrapPeers (me_cfg (mem i))) (hd (nw_signed w i)) ?s"
    using inv sg gossip_invD(4) [OF inv] D by simp
qed

lemma flood_net_inv_step:
  assumes "codec_exact js D" and inv: "flood_net_inv ed js mem N D w" and "flood_step ed js mem N w w'"
  shows "flood_net_inv ed js mem N D w'"
proof -
  from assms(3) have step: "network_step ed js mem N w w'"
    and far: "\<And>i x. i \<in> N \<Longrightarrow> x \<in> set (gn_pending (nw_nodes w' i)) \<Longrightarrow> snd x \<notin> N"
    and kept: "\<And>i sid. i \<in> N \<Longrightarrow> mget (st_records (gn_store (nw_nodes w i))) sid \<noteq> None \<Longrightarrow>
      mget (st_records (gn_store (nw_nodes w' i))) sid \<noteq> None" unfolding flood_step_def by blast+
  from step show ?thesis
  proof cases
    case (node i s)
    let ?env = "member_env ed js mem i"
    have i: "nw_signed w i \<noteq> []" "gossip_inv ?env (nw_nodes w i)"
      "nr_ServerID (hd (nw_signed w i)) = serverID (me_key (mem i)) \<and> D (hd (nw_signed w i))
        \<and> verifyRecord ed js (hd (nw_signed w i)) = Ret (hd (nw_signed w i), None)"
      "flood_inv ?env N (gc_BootstrapPeers (me_cfg (mem i))) (hd (nw_signed w i)) (nw_nodes w i)"
      using inv node(2) unfolding flood_net_inv_def by blast+
    have "snd x \<notin> N" if "x \<in> set (gn_pending s)" for x using far [OF node(2)] that by (simp add: node(1))
    moreover have "mget (st_records (gn_store s)) sid \<noteq> None" if "mget (st_records (gn_store (nw_nodes w i))) sid \<noteq> None" for sid
      using kept [OF node(2) that] by (simp add: node(1))
    moreover have "\<exists>b. encode_message js msgNodeRecord (js_record js r) = Inr b" if "decoded js r" for r
      using assms(1) that unfolding codec_exact_def by blast
    ultimately have f: "flood_inv ?env N (gc_BootstrapPeers (me_cfg (mem i))) (hd (nw_signed w i)) s"
      using flood_inv_step [OF i(4,2) node(3)] by simp
    have g: "gossip_inv ?env s" using agent.inv_step [OF i(2) node(3)] .
    show ?thesis
      using inv i(1,3) f g unfolding flood_net_inv_def node(1) by simp
  qed
qed

lemma flood_reachable_inv:
  assumes "codec_exact js D" and "reachable (flood_init ed js mem N D) (flood_step ed js mem N) w"
  shows "flood_net_inv ed js mem N D w"
proof -
  have "invariant_system (flood_init ed js mem N D) (flood_step ed js mem N) (flood_net_inv ed js mem N D)"
    using flood_net_inv_init [OF assms(1)] flood_net_inv_step [OF assms(1)] by unfold_locales blast+
  then show ?thesis using assms(2) by (rule invariant_system.reachable_inv)
qed

section \<open>A settled network\<close>

text \<open>
  A line has been handled by an agent when the record in it, if it is one of another node and
  verifies, is known.  This is so after the handler returned, and stays so.
\<close>

definition handled :: "gossip_env \<Rightarrow> bytes \<Rightarrow> gossip \<Rightarrow> bool" where
  "handled env line s \<longleftrightarrow> (\<forall>payload r. un_message (ge_js env) line = Inr \<lparr>ms_Type = msgNodeRecord, ms_Payload = payload\<rparr>
     \<and> un_record (ge_js env) payload = Inr r \<and> authentic env r \<longrightarrow> isSeen (recordKey r) (gn_store s))"

lemma handled_line:
  assumes "handle_gossip_line env now fr line s = Ret t"
  shows "handled env line t"
  unfolding handled_def
proof (intro allI impI, elim conjE)
  fix payload r
  assume m: "un_message (ge_js env) line = Inr \<lparr>ms_Type = msgNodeRecord, ms_Payload = payload\<rparr>" "un_record (ge_js env) payload = Inr r"
    and a: "authentic env r"
  have h: "handleNodeRecord env now payload fr s = Ret t" using assms m(1) by (simp add: handle_gossip_line_def)
  show "isSeen (recordKey r) (gn_store t)"
  proof (cases "isSeen (recordKey r) (gn_store s)")
    case True
    then have "check_record env payload s = Ret None" using a m(2) by (simp add: check_record_def authentic_def)
    then show ?thesis using h True by (simp add: handleNodeRecord_def)
  next
    case False
    then have "check_record env payload s = Ret (Some r)" using a m(2) by (simp add: check_record_def authentic_def)
    then have "t = store_record now r fr s" using h by (simp add: handleNodeRecord_def)
    then show ?thesis using store_record_new(7) [OF False] by simp
  qed
qed

definition settled :: "ed25519 \<Rightarrow> codec \<Rightarrow> (string \<Rightarrow> member) \<Rightarrow> string set \<Rightarrow> network \<Rightarrow> bool" where
  "settled ed js mem N w \<longleftrightarrow> (\<forall>i \<in> N. gn_pending (nw_nodes w i) = [] \<and> gn_forwards (nw_nodes w i) = []
     \<and> (\<forall>p line. (p, line @ [10]) \<in> set (gn_sent (nw_nodes w i)) \<longrightarrow> p \<in> N \<longrightarrow> handled (member_env ed js mem p) line (nw_nodes w p)))"

text \<open>Members and the peers they are configured with.\<close>

definition knows :: "(string \<Rightarrow> member) \<Rightarrow> string set \<Rightarrow> string \<Rightarrow> string \<Rightarrow> bool" where
  "knows mem N i p \<longleftrightarrow> i \<in> N \<and> p \<in> N \<and> p \<in> set (gc_BootstrapPeers (me_cfg (mem i)))"

lemma sent_handled:
  assumes cod: "codec_exact js D" and set: "settled ed js mem N w" and i: "i \<in> N" and p: "p \<in> N"
    and sent: "was_sent js (nw_nodes w i) p r" and r: "D r" and a: "authentic (member_env ed js mem p) r"
  shows "isSeen (recordKey r) (gn_store (nw_nodes w p))"
proof -
  obtain b where b: "encode_message js msgNodeRecord (js_record js r) = Inr b" "(p, b @ [10]) \<in> set (gn_sent (nw_nodes w i))"
    using sent unfolding was_sent_def by blast
  then obtain payload where pl: "js_record js r = Inr payload" "js_message js \<lparr>ms_Type = msgNodeRecord, ms_Payload = payload\<rparr> = Inr b"
    by (auto simp: encode_message_def split: sum.splits)
  have "un_message js b = Inr \<lparr>ms_Type = msgNodeRecord, ms_Payload = payload\<rparr>" "un_record js payload = Inr r"
    using cod r pl unfolding codec_exact_def by blast+
  moreover have "handled (member_env ed js mem p) b (nw_nodes w p)" using set i p b(2) unfolding settled_def by blast
  ultimately show ?thesis using a unfolding handled_def by simp
qed

lemma authentic_elsewhere:
  "authentic (member_env ed js mem i) r \<Longrightarrow> nr_ServerID r \<noteq> serverID (me_key (mem j)) \<Longrightarrow> authentic (member_env ed js mem j) r"
  by (simp add: authentic_def)

text \<open>Along the configured peers the key of the first announcement becomes known.\<close>

lemma flood_seen:
  assumes cod: "codec_exact js D" and reach: "reachable (flood_init ed js mem N D) (flood_step ed js mem N) w"
    and set: "settled ed js mem N w" and keys: "inj_on (\<lambda>i. serverID (me_key (mem i))) N" and src: "src \<in> N"
    and path: "(knows mem N)\<^sup>*\<^sup>* src j"
  shows "isSeen (recordKey (hd (nw_signed w src))) (gn_store (nw_nodes w j))"
  using path
proof (induction rule: rtranclp_induct)
  case base
  then show ?case using flood_reachable_inv [OF cod reach] src unfolding flood_net_inv_def flood_inv_def by blast
next
  case (step i p)
  let ?r0 = "hd (nw_signed w src)"
  have ip: "i \<in> N" "p \<in> N" "p \<in> set (gc_BootstrapPeers (me_cfg (mem i)))" using step.hyps(2) unfolding knows_def by blast+
  have net: "flood_net_inv ed js mem N D w" by (rule flood_reachable_inv [OF cod reach])
  have id: "nr_ServerID (hd (nw_signed w k)) = serverID (me_key (mem k))" if "k \<in> N" for k
    using net that unfolding flood_net_inv_def by blast
  have first: "verifyRecord ed js ?r0 = Ret (?r0, None)" "D ?r0" using net src unfolding flood_net_inv_def by blast+
  have fi: "flood_inv (member_env ed js mem i) N (gc_BootstrapPeers (me_cfg (mem i))) (hd (nw_signed w i)) (nw_nodes w i)"
    and gi: "gossip_inv (member_env ed js mem i) (nw_nodes w i)" using net ip(1) unfolding flood_net_inv_def by blast+
  show ?case
  proof (cases "p = src")
    case True
    then show ?thesis using net src unfolding flood_net_inv_def flood_inv_def by blast
  next
    case False
    then have other: "serverID (me_key (mem src)) \<noteq> serverID (me_key (mem p))" using keys ip(2) src by (auto dest: inj_onD)
    consider (own) "recordKey ?r0 = recordKey (hd (nw_signed w i))"
      | (learnt) a where "a \<in> set (gn_started (nw_nodes w i))" "recordKey (gn_heap (nw_nodes w i) ! a) = recordKey ?r0"
      using fi step.IH unfolding flood_inv_def by blast
    then show ?thesis
    proof cases
      case own
      then have "serverID (me_key (mem src)) = serverID (me_key (mem i))" using id ip(1) src by (simp add: recordKey_inj)
      then have "i = src" using keys ip(1) src by (auto dest: inj_onD)
      then have "was_sent js (nw_nodes w i) p ?r0" using fi ip(3) unfolding flood_inv_def by simp
      moreover have "authentic (member_env ed js mem p) ?r0" using first(1) other id [OF src] by (simp add: authentic_def)
      ultimately show ?thesis using sent_handled [OF cod set ip(1,2) _ first(2)] by blast
    next
      case learnt
      let ?r = "gn_heap (nw_nodes w i) ! a"
      have "gn_forwards (nw_nodes w i) = []" using set ip(1) unfolding settled_def by blast
      then have s: "was_sent js (nw_nodes w i) p ?r" and d: "D ?r"
        using fi learnt(1) ip(2,3) cod unfolding flood_inv_def passed_on_def codec_exact_def by auto
      have "nr_ServerID ?r = serverID (me_key (mem src))" using learnt(2) id [OF src] by (simp add: recordKey_inj)
      moreover have "authentic (member_env ed js mem i) ?r"
        using gossip_invD(9) [OF gi learnt(1)] gossip_invD(5) [OF gi] by blast
      ultimately have "authentic (member_env ed js mem p) ?r" using authentic_elsewhere other by metis
      then show ?thesis using sent_handled [OF cod set ip(1,2) s d] learnt(2) by simp
    qed
  qed
qed

text \<open>What a member that has seen the key of another member's first announcement has stored.\<close>

lemma flood_stored:
  assumes net: "flood_net_inv ed js mem N D w" and src: "src \<in> N" and j: "j \<in> N"
    and other: "serverID (me_key (mem src)) \<noteq> serverID (me_key (mem j))"
    and seen: "isSeen (recordKey (hd (nw_signed w src))) (gn_store (nw_nodes w j))"
  shows "\<exists>a \<in> set (gn_started (nw_nodes w j)). recordKey (gn_heap (nw_nodes w j) ! a) = recordKey (hd (nw_signed w src))
      \<and> mget (st_records (gn_store (nw_nodes w j))) (serverID (me_key (mem src))) \<noteq> None"
proof -
  have id: "nr_ServerID (hd (nw_signed w k)) = serverID (me_key (mem k))" if "k \<in> N" for k
    using net that unfolding flood_net_inv_def by blast
  have fi: "flood_inv (member_env ed js mem j) N (gc_BootstrapPeers (me_cfg (mem j))) (hd (nw_signed w j)) (nw_nodes w j)"
    using net j unfolding flood_net_inv_def by blast
  have "recordKey (hd (nw_signed w src)) \<noteq> recordKey (hd (nw_signed w j))" using other id src j by (simp add: recordKey_inj)
  then obtain a where a: "a \<in> set (gn_started (nw_nodes w j))" "recordKey (gn_heap (nw_nodes w j) ! a) = recordKey (hd (nw_signed w src))"
    using fi seen unfolding flood_inv_def by blast
  then have "nr_ServerID (gn_heap (nw_nodes w j) ! a) = serverID (me_key (mem src))" using id [OF src] by (simp add: recordKey_inj)
  then show ?thesis using fi a unfolding flood_inv_def by metis
qed

section \<open>Properties\<close>

text \<open>C6. Gossip reaches everybody: take a network that runs without records expiring, in which every message
  to a member was handled and no goroutine has work left.  Every other member that can be reached
  from a member through the configured peers has stored the record which that one announced at its
  start, verified, and has an entry for that server, whose record carries a valid signature of it.
  An adversary may send anything but forged signatures, as long as messages come from other
  addresses than those that members listen on, and members have different keys.\<close>

theorem gossip_floods:
  assumes cod: "codec_exact js D" and reach: "reachable (flood_init ed js mem N D) (flood_step ed js mem N) w"
    and set: "settled ed js mem N w" and keys: "inj_on (\<lambda>i. serverID (me_key (mem i))) N" and src: "src \<in> N"
    and path: "(knows mem N)\<^sup>*\<^sup>* src j" and "j \<noteq> src"
  shows "isSeen (recordKey (hd (nw_signed w src))) (gn_store (nw_nodes w j))
    \<and> (\<exists>r \<in> set (gn_heap (nw_nodes w j)). recordKey r = recordKey (hd (nw_signed w src)) \<and> verifyRecord ed js r = Ret (r, None))
    \<and> (\<exists>e r. mget (st_records (gn_store (nw_nodes w j))) (serverID (me_key (mem src))) = Some e
        \<and> r = gn_heap (nw_nodes w j) ! en_Record e \<and> nr_ServerID r = serverID (me_key (mem src)) \<and> verifyRecord ed js r = Ret (r, None))"
proof -
  let ?s = "nw_nodes w j" and ?sid = "serverID (me_key (mem src))"
  have net: "flood_net_inv ed js mem N D w" by (rule flood_reachable_inv [OF cod reach])
  have j: "j \<in> N" using path assms(7) by (cases rule: rtranclp.cases) (auto simp: knows_def)
  have g: "gossip_inv (member_env ed js mem j) ?s" using net j unfolding flood_net_inv_def by blast
  have other: "?sid \<noteq> serverID (me_key (mem j))" using keys j src assms(7) by (auto dest: inj_onD)
  have seen: "isSeen (recordKey (hd (nw_signed w src))) (gn_store ?s)" by (rule flood_seen [OF cod reach set keys src path])
  obtain a e where a: "a \<in> set (gn_started ?s)" "recordKey (gn_heap ?s ! a) = recordKey (hd (nw_signed w src))"
    and e: "mget (st_records (gn_store ?s)) ?sid = Some e"
    using flood_stored [OF net src j other seen] by blast
  have ver: "verifyRecord ed js (gn_heap ?s ! b) = Ret (gn_heap ?s ! b, None)" if "b < length (gn_heap ?s)" "b \<noteq> 0" for b
    using gossip_invD(5) [OF g that(1)] that(2) by (simp add: authentic_def)
  have "a < length (gn_heap ?s)" "a \<noteq> 0" using gossip_invD(9) [OF g a(1)] by auto
  moreover have "en_Record e < length (gn_heap ?s)" "nr_ServerID (gn_heap ?s ! en_Record e) = ?sid"
    using gossip_invD(6,7) [OF g e] by blast+
  moreover from this have "en_Record e \<noteq> 0" using gossip_invD(4) [OF g] other by (metis member_env_simps(3,4))
  ultimately show ?thesis using seen a(2) e ver nth_mem by metis
qed

text \<open>A step of one member, for the example.\<close>

lemma flood_node:
  assumes cod: "codec_exact js D" and reach: "reachable (flood_init ed js mem N D) (flood_step ed js mem N) w" and i: "i \<in> N"
    and step: "gossip_step (member_env ed js mem i) (nw_nodes w i) s"
    and pend: "\<And>p. p \<in> set (gn_pending s) \<Longrightarrow> p \<in> set (gn_pending (nw_nodes w i)) \<or> unforged js mem N w (fst p)"
    and far: "\<And>p. p \<in> set (gn_pending s) \<Longrightarrow> snd p \<notin> N"
    and kept: "\<And>sid. mget (st_records (gn_store (nw_nodes w i))) sid \<noteq> None \<Longrightarrow> mget (st_records (gn_store s)) sid \<noteq> None"
  shows "\<exists>w'. reachable (flood_init ed js mem N D) (flood_step ed js mem N) w' \<and> nw_nodes w' = (nw_nodes w)(i := s)
    \<and> (\<forall>j \<in> N. hd (nw_signed w' j) = hd (nw_signed w j))"
proof -
  let ?w = "w\<lparr>nw_nodes := (nw_nodes w)(i := s), nw_signed := (nw_signed w)(i := nw_signed w i @ [gn_heap s ! 0])\<rparr>"
  have inv: "flood_net_inv ed js mem N D w" by (rule flood_reachable_inv [OF cod reach])
  have "network_step ed js mem N w ?w" using i step pend by (rule network_step.node)
  moreover have "snd x \<notin> N" if "k \<in> N" "x \<in> set (gn_pending (nw_nodes ?w k))" for k x
  proof (cases "k = i")
    case True
    then show ?thesis using far that by simp
  next
    case False
    then have "x \<in> set (gn_pending (nw_nodes w k))" using that by simp
    then show ?thesis using inv that(1) unfolding flood_net_inv_def flood_inv_def by blast
  qed
  moreover have "mget (st_records (gn_store (nw_nodes ?w k))) sid \<noteq> None" if "mget (st_records (gn_store (nw_nodes w k))) sid \<noteq> None" for k sid
    using kept that by (cases "k = i") simp_all
  ultimately have "flood_step ed js mem N w ?w" unfolding flood_step_def by blast
  then have "reachable (flood_init ed js mem N D) (flood_step ed js mem N) ?w" by (rule reach_step [OF reach])
  moreover have "\<forall>j \<in> N. hd (nw_signed ?w j) = hd (nw_signed w j)"
    using inv unfolding flood_net_inv_def by simp
  ultimately show ?thesis by (intro exI [of _ ?w]) simp
qed

definition pair :: "string set" where "pair = {''7'', ''8''}"

definition net_records :: "NodeRecord \<Rightarrow> bool" where "net_records r \<longleftrightarrow> (\<exists>b. r = net_record b)"

lemma net_exact: "codec_exact net_js net_records"
proof -
  have "hd (net_code (net_record b)) = b" for b
    using net_code_announced [of b 5] by (simp add: net_code_def)
  then show ?thesis
    unfolding codec_exact_def net_records_def decoded_def encode_message_def net_js_simps by auto
qed

theorem gossip_floods_witness:
  "\<exists>w. reachable (flood_init ex_ed net_js net_mem pair net_records) (flood_step ex_ed net_js net_mem pair) w
    \<and> hd (nw_signed w ''8'') = net_record 8 \<and> isSeen (recordKey (net_record 8)) (gn_store (nw_nodes w ''7''))
    \<and> mget (st_records (gn_store (nw_nodes w ''7''))) (serverID (net_key 8)) \<noteq> None"
proof -
  let ?reach = "reachable (flood_init ex_ed net_js net_mem pair net_records) (flood_step ex_ed net_js net_mem pair)"
  have mem: "''7'' \<in> pair" "''8'' \<in> pair" by (simp_all add: pair_def)
  have byte: "net_byte ''7'' = 7" "net_byte ''8'' = 8" by (simp_all add: net_byte_def)
  have env: "member_env ex_ed net_js net_mem ''7'' = net_env" by (simp add: net_env_def)
  have init: "flood_init ex_ed net_js net_mem pair net_records net_init"
    unfolding flood_init_def using net_init_ok ex_ed_ok net_key_pair
    by (auto simp: net_init_def net_records_def net_mem_simps)
  then have r0: "?reach net_init" by (rule reach_init)
  define s1 where "s1 = (net_start 7)\<lparr>gn_pending := gn_pending (net_start 7) @ [(net_record 8, ''q'')]\<rparr>"
  define s2 where "s2 = store_record 6 (net_record 8) ''q'' (s1\<lparr>gn_pending := []\<rparr>)"
  define s3 where "s3 = s2\<lparr>gn_forwards := []\<rparr>"
  have n0: "nw_nodes net_init ''7'' = net_start 7" "nw_nodes net_init ''8'' = net_start 8" "hd (nw_signed net_init ''8'') = net_record 8"
    by (simp_all add: net_init_def byte)
  have p1: "gn_pending s1 = [(net_record 8, ''q'')]" by (simp add: s1_def net_start_def)
  have new: "\<not> isSeen (recordKey (net_record 8)) (gn_store (s1\<lparr>gn_pending := []\<rparr>))"
    using net_learn_state [of "[]"] by (simp add: recordKey_inj s1_def)
  note f2 = store_record_new [OF new, where now = 6 and fromAddr = "''q''", folded s2_def]
  have p2: "gn_pending s2 = []" "gn_pending s3 = []" using f2(6) by (simp_all add: s3_def)
  have peers: "gn_peers s2 = []" using f2(5) by (simp add: s1_def net_start_def newPeerManager_def)
  have "check_record net_env [8] (net_start 7) = Ret (Some (net_record 8))" using net_check [of 8 "[]"] by simp
  then have st1: "gossip_step net_env (net_start 7) s1" unfolding s1_def by (rule gossip_step.check)
  have st2: "gossip_step net_env s1 s2"
    using gossip_step.insert [of s1 "[]" "net_record 8" "''q''" "[]" net_env 6] p1 by (simp add: s2_def)
  have "forwardRecord net_env [] (gn_heap s2 ! 1) ''q'' (s2\<lparr>gn_forwards := []\<rparr>) = s3"
    by (simp add: forwardRecord_def activeAddrs_def encode_message_def net_env_def net_js_simps s3_def)
  moreover have "gn_forwards s2 = [(1, ''q'')]" using f2(3) by (simp add: s1_def net_start_def)
  ultimately have st3: "gossip_step net_env s2 s3"
    using gossip_step.forward [of s2 "[]" 1 "''q''" "[]" "[]" net_env] peers by (simp add: range_order_def)
  have u: "unforged net_js net_mem pair net_init (net_record 8)"
    unfolding unforged_def net_mem_simps by (auto simp: net_init_def)
  have k1: "gn_store s1 = gn_store (net_start 7)" "gn_store s3 = gn_store s2" by (simp_all add: s1_def s3_def)
  have k2: "mget (st_records (gn_store s2)) sid \<noteq> None" if "mget (st_records (gn_store s1)) sid \<noteq> None" for sid
    using that f2(2) by simp
  obtain w1 where w1: "?reach w1" "nw_nodes w1 = (nw_nodes net_init)(''7'' := s1)" "hd (nw_signed w1 ''8'') = net_record 8"
    using flood_node [OF net_exact r0 mem(1), of s1] st1 u mem(2) p1 k1 by (auto simp: n0 env pair_def)
  obtain w2 where w2: "?reach w2" "nw_nodes w2 = (nw_nodes w1)(''7'' := s2)" "hd (nw_signed w2 ''8'') = net_record 8"
    using flood_node [OF net_exact w1(1) mem(1), of s2] st2 mem(2) w1(2,3) p2 k2 by (auto simp: env)
  obtain w3 where w3: "?reach w3" "nw_nodes w3 = (nw_nodes w2)(''7'' := s3)" "hd (nw_signed w3 ''8'') = net_record 8"
    using flood_node [OF net_exact w2(1) mem(1), of s3] st3 mem(2) w2(2,3) p2 k1 by (auto simp: env)
  have n7: "nw_nodes w3 ''7'' = s3" unfolding w3(2) by simp
  have n8: "nw_nodes w3 ''8'' = net_start 8" unfolding w3(2) w2(2) w1(2) by (simp add: n0)
  have sent: "gn_sent s3 = []" "gn_forwards s3 = []"
    by (simp_all add: s3_def s2_def s1_def store_record_def new_record_def Let_def net_start_def split: prod.split)
  have code: "net_code (net_record 8) = net_code (net_announced 8 5)" by (simp add: net_code_def)
  have h: "handled net_env (net_code (net_record 8)) s3"
    using f2(7) unfolding handled_def by (simp add: s3_def net_env_def net_js_simps code net_code_announced)
  have sent8: "gn_sent (net_start 8) = [(''7'', net_code (net_record 8) @ [10])]" "gn_pending (net_start 8) = []"
    "gn_forwards (net_start 8) = []" by (simp_all add: net_start_def)
  have set: "settled ex_ed net_js net_mem pair w3"
    unfolding settled_def pair_def using h p2 sent sent8 by (auto simp: n7 n8 env)
  have keys: "inj_on (\<lambda>i. serverID (me_key (net_mem i))) pair"
    by (auto simp: inj_on_def pair_def net_mem_simps byte)
  have "knows net_mem pair ''8'' ''7''" by (simp add: knows_def pair_def net_mem_simps byte net_cfg_def)
  then have path: "(knows net_mem pair)\<^sup>*\<^sup>* ''8'' ''7''" by (rule r_into_rtranclp)
  have key: "me_key (net_mem ''8'') = net_key 8" by (simp add: net_mem_simps byte)
  have "''7'' \<noteq> ''8''" by simp
  from gossip_floods [OF net_exact w3(1) set keys mem(2) path this] show ?thesis
    using w3(1,3) unfolding key by (intro exI [of _ w3]) auto
qed

end
