(* ===== verification/GoNet.thy ===== *)
theory GoNet
  imports GoText
begin

text \<open>
  Addresses as \<^verbatim>\<open>net\<close> and \<^verbatim>\<open>net/netip\<close> parse them: dotted IPv4, IPv6 with its abbreviations, and
  CIDR prefixes.  A parsed address is its 4 or 16 bytes; a zone is kept because prefixes reject
  it.
\<close>

section \<open>IPv4\<close>

text \<open>
  The loop over the characters of an IPv4 address: \<open>prev\<close> is the character before, \<open>val\<close> and
  \<open>digLen\<close> describe the current field, \<open>fs\<close> are the fields before it.
\<close>

fun ipv4_loop :: "char option \<Rightarrow> nat \<Rightarrow> nat \<Rightarrow> bytes \<Rightarrow> string \<Rightarrow> bytes option" where
  "ipv4_loop prev val digLen fs [] =
     (if length fs < 3 then None else Some (fs @ [of_nat val]))"
| "ipv4_loop prev val digLen fs (c # cs) =
     (if is_digit c then
        (if digLen = 1 \<and> val = 0 then None
         else let v = val * 10 + digit_val c in
           if v > 255 then None else ipv4_loop (Some c) v (digLen + 1) fs cs)
      else if c = CHR ''.'' then
        (if prev = None \<or> cs = [] \<or> prev = Some (CHR ''.'') then None
         else if length fs = 3 then None
         else ipv4_loop (Some c) 0 0 (fs @ [of_nat val]) cs)
      else None)"

definition parseIPv4 :: "string \<Rightarrow> bytes option" where
  "parseIPv4 s = ipv4_loop None 0 0 [] s"

section \<open>IPv6\<close>

definition is_hex :: "char \<Rightarrow> bool" where
  "is_hex c \<longleftrightarrow> is_digit c \<or> (of_char c :: nat) \<in> {97..102} \<or> (of_char c :: nat) \<in> {65..70}"

definition hex_val :: "char \<Rightarrow> nat" where
  "hex_val c = (if is_digit c then digit_val c else if 97 \<le> (of_char c :: nat) then of_char c - 87 else of_char c - 55)"

text \<open>The value of a group of hexadecimal digits, as its two bytes.\<close>

definition group_bytes :: "string \<Rightarrow> bytes" where
  "group_bytes g = (let v = foldl (\<lambda>n c. 16 * n + hex_val c) 0 g in [of_nat (v div 256), of_nat (v mod 256)])"

text \<open>
  The loop over the groups: the bytes so far, the position of the ellipsis, the rest of the
  string.  The result is the bytes and the ellipsis when the whole string is used.
\<close>

function v6_loop :: "bytes \<Rightarrow> nat option \<Rightarrow> string \<Rightarrow> (bytes \<times> nat option) option" where
  "v6_loop ip ell s =
     (if length ip \<ge> 16 then (if s = [] then Some (ip, ell) else None)
      else
        (let g = takeWhile is_hex s; rest = dropWhile is_hex s in
         if length g = 0 \<or> length g > 4 then None
         else if rest \<noteq> [] \<and> hd rest = CHR ''.'' then
           (if ell = None \<and> length ip \<noteq> 12 then None
            else if length ip + 4 > 16 then None
            else map_option (\<lambda>fs. (ip @ fs, ell)) (parseIPv4 s))
         else
           (let ip' = ip @ group_bytes g in
            if rest = [] then Some (ip', ell)
            else if hd rest \<noteq> CHR '':'' then None
            else if length rest = 1 then None
            else if hd (tl rest) = CHR '':'' then
              (if ell \<noteq> None then None
               else if tl (tl rest) = [] then Some (ip', Some (length ip'))
               else v6_loop ip' (Some (length ip')) (tl (tl rest)))
            else v6_loop ip' ell (tl rest))))"
  by pat_completeness auto
termination
proof (relation "measure (\<lambda>(ip, ell, s). length s)")
  have shorter: "length (dropWhile is_hex s) \<le> length s" for s by (rule length_dropWhile_le)
  show "((ip', e, tl (tl rest)), ip, ell, s) \<in> measure (\<lambda>(ip, ell, s). length s)"
    if "rest = dropWhile is_hex s" "rest \<noteq> []" for ip ell s rest ip' e
  proof -
    have "0 < length rest" "length rest \<le> length s" using shorter [of s] that by simp_all
    then have "length rest - Suc (Suc 0) < length s" "length rest - Suc 0 < length s" by linarith+
    then show ?thesis by simp
  qed
  show "((ip', e, tl rest), ip, ell, s) \<in> measure (\<lambda>(ip, ell, s). length s)"
    if "rest = dropWhile is_hex s" "rest \<noteq> []" for ip ell s rest ip' e
  proof -
    have "0 < length rest" "length rest \<le> length s" using shorter [of s] that by simp_all
    then have "length rest - Suc (Suc 0) < length s" "length rest - Suc 0 < length s" by linarith+
    then show ?thesis by simp
  qed
qed simp_all

declare v6_loop.simps [simp del]

text \<open>Filling up an address that has an ellipsis.\<close>

definition v6_finish :: "(bytes \<times> nat option) option \<Rightarrow> bytes option" where
  "v6_finish res =
     (case res of
        None \<Rightarrow> None
      | Some (ip, ell) \<Rightarrow>
          if length ip < 16 then
            (case ell of None \<Rightarrow> None
             | Some e \<Rightarrow> Some (take e ip @ replicate (16 - length ip) 0 @ drop e ip))
          else if ell \<noteq> None then None else Some ip)"

definition parseIPv6 :: "string \<Rightarrow> (bytes \<times> string) option" where
  "parseIPv6 s0 =
     (let s = takeWhile (\<lambda>c. c \<noteq> CHR ''%'') s0;
          hasZone = CHR ''%'' \<in> set s0;
          zone = drop (length s + 1) s0
      in if hasZone \<and> zone = [] then None
         else if take 2 s = ''::'' then
           (if drop 2 s = [] then Some (replicate 16 0, zone)
            else map_option (\<lambda>ip. (ip, zone)) (v6_finish (v6_loop [] (Some 0) (drop 2 s))))
         else map_option (\<lambda>ip. (ip, zone)) (v6_finish (v6_loop [] None s)))"

section \<open>Addresses and prefixes\<close>

text \<open>The first of the three characters decides about the kind of address.\<close>

definition ParseAddr :: "string \<Rightarrow> (bytes \<times> string) option" where
  "ParseAddr s =
     (case dropWhile (\<lambda>c. c \<notin> {CHR ''.'', CHR '':'', CHR ''%''}) s of
        [] \<Rightarrow> None
      | c # _ \<Rightarrow>
          if c = CHR ''.'' then map_option (\<lambda>ip. (ip, [])) (parseIPv4 s)
          else if c = CHR '':'' then parseIPv6 s
          else None)"

record IPNet =
  ipn_IP :: bytes
  ipn_Bits :: nat

text \<open>The number after the slash.\<close>

definition prefix_bits :: "string \<Rightarrow> nat option" where
  "prefix_bits m = (if m \<noteq> [] \<and> list_all is_digit m \<and> dec_val m < 16777215 then Some (dec_val m) else None)"

text \<open>Keeping the first \<open>n\<close> bits.\<close>

definition mask_byte :: "nat \<Rightarrow> byte \<Rightarrow> byte" where
  "mask_byte k b = push_bit (8 - k) (drop_bit (8 - k) b)"

fun mask_bytes :: "nat \<Rightarrow> bytes \<Rightarrow> bytes" where
  "mask_bytes n [] = []"
| "mask_bytes n (b # bs) = mask_byte (min 8 n) b # mask_bytes (n - 8) bs"

definition ParseCIDR :: "string \<Rightarrow> IPNet option" where
  "ParseCIDR s =
     (if CHR ''/'' \<notin> set s then None
      else
        (let a = takeWhile (\<lambda>c. c \<noteq> CHR ''/'') s; m = drop (length a + 1) s in
         case ParseAddr a of
           None \<Rightarrow> None
         | Some (ip, zone) \<Rightarrow>
             if zone \<noteq> [] then None
             else (case prefix_bits m of
                 None \<Rightarrow> None
               | Some n \<Rightarrow> if n > 8 * length ip then None
                           else Some \<lparr>ipn_IP = mask_bytes n ip, ipn_Bits = n\<rparr>)))"

section \<open>Host and port\<close>

text \<open>
  The form \<^verbatim>\<open>host:port\<close> that the resolver of UDP addresses accepts: the host contains no colon,
  or it is enclosed in brackets.
\<close>

definition host_port :: "string \<Rightarrow> bool" where
  "host_port s \<longleftrightarrow> (\<exists>host port. CHR '':'' \<notin> set port \<and> CHR ''/'' \<notin> set (host @ port) \<and>
     (s = host @ '':'' @ port \<and> CHR '':'' \<notin> set host \<or> s = ''['' @ host @ '']:'' @ port))"

section \<open>Lemmas\<close>

lemma is_digit_dot [simp]: "\<not> is_digit (CHR ''.'')"
  by (simp add: is_digit_def)

lemma colon_chars [simp]: "\<not> is_digit (CHR '':'')" "\<not> is_digit (CHR ''['')"
  by (simp_all add: is_digit_def)

text \<open>A colon ends the hope for an IPv4 address.\<close>

lemma ipv4_loop_colon: "CHR '':'' \<in> set s \<Longrightarrow> ipv4_loop prev val digLen fs s = None"
  by (induction s arbitrary: prev val digLen fs) (auto simp: Let_def)

text \<open>Reading back a decimal number.\<close>

lemma ipv4_loop_dec:
  "\<exists>p. ipv4_loop prev 0 0 fs (dec n @ rest) =
     (if n > 255 then None else ipv4_loop (Some p) n (length (dec n)) fs rest) \<and> is_digit p"
proof (induction n arbitrary: rest rule: dec.induct)
  case (1 n)
  show ?case
  proof (cases "n < 10")
    case True
    then show ?thesis by (simp add: dec.simps [of n] Let_def) (metis True is_digit_digit)
  next
    case False
    then obtain p where p: "ipv4_loop prev 0 0 fs (dec (n div 10) @ (digit (n mod 10) # rest)) =
        (if n div 10 > 255 then None
         else ipv4_loop (Some p) (n div 10) (length (dec (n div 10))) fs (digit (n mod 10) # rest))"
      using 1 by blast
    have "n = n div 10 * 10 + n mod 10" by simp
    moreover have "n div 10 \<noteq> 0" using False by (simp add: div_eq_0_iff)
    moreover have "n div 10 > 255 \<Longrightarrow> n > 255" using \<open>n = _\<close> by linarith
    ultimately show ?thesis
      using p False by (auto simp: dec.simps [of n] Let_def intro: exI [of _ "digit (n mod 10)"])
  qed
qed


lemma hex_not_colon: "\<not> is_hex (CHR '':'')" "\<not> is_hex (CHR ''['')"
  by (simp_all add: is_hex_def)

lemma count_hex_prefix: "count_list (takeWhile is_hex s) (CHR '':'') = 0"
  using hex_not_colon(1) by (auto simp: count_list_0_iff dest: set_takeWhileD)

lemma count_after_hex: "count_list (dropWhile is_hex s) (CHR '':'') = count_list s (CHR '':'')"
  by (metis add_0 count_hex_prefix count_list_append takeWhile_dropWhile_id)

lemma length_group_bytes [simp]: "length (group_bytes g) = 2"
  by (simp add: group_bytes_def Let_def)

lemma ipv4_loop_length: "ipv4_loop prev val digLen fs s = Some r \<Longrightarrow> length fs \<le> 3 \<Longrightarrow> length r = 4"
  by (induction s arbitrary: prev val digLen fs) (auto simp: Let_def split: if_splits)

lemma parseIPv4_length: "parseIPv4 s = Some r \<Longrightarrow> length r = 4"
  unfolding parseIPv4_def by (erule ipv4_loop_length) simp

text \<open>One round of the loop over the groups.\<close>

lemma v6_loop_cases:
  assumes "v6_loop ip ell s = Some (ip', ell')"
  obtains (full) "s = []" "ip' = ip" "ell' = ell"
  | (ipv4) fs where "length fs = 4" "ip' = ip @ fs" "ell' = ell"
  | (last) bs where "length bs = 2" "ip' = ip @ bs" "ell' = ell"
  | (ends) "ell = None" "ell' \<noteq> None" "2 \<le> count_list s (CHR '':'')"
  | (ellipsis) bs r where "length bs = 2" "ell = None" "2 + count_list r (CHR '':'') = count_list s (CHR '':'')"
      "length r < length s" "v6_loop (ip @ bs) (Some (length (ip @ bs))) r = Some (ip', ell')"
  | (group) bs r where "length bs = 2" "1 + count_list r (CHR '':'') = count_list s (CHR '':'')"
      "length r < length s" "v6_loop (ip @ bs) ell r = Some (ip', ell')"
proof -
  define g rest where "g = takeWhile is_hex s" and "rest = dropWhile is_hex s"
  have cr: "count_list rest (CHR '':'') = count_list s (CHR '':'')" by (simp add: rest_def count_after_hex)
  have lr: "length rest \<le> length s" unfolding rest_def by (rule length_dropWhile_le)
  note eq = assms [unfolded v6_loop.simps [of ip ell s] Let_def, folded g_def rest_def]
  show thesis
  proof (cases "length ip \<ge> 16")
    case True
    with eq full show thesis by (auto split: if_splits)
  next
    case False
    show thesis
    proof (cases "rest \<noteq> [] \<and> hd rest = CHR ''.''")
      case True
      with eq False obtain fs where "parseIPv4 s = Some fs" "ip' = ip @ fs" "ell' = ell"
        by (auto split: if_splits)
      with ipv4 parseIPv4_length show thesis by blast
    next
      case no4: False
      show thesis
      proof (cases "rest = []")
        case True
        with eq False no4 last [of "group_bytes g"] show thesis by (auto split: if_splits)
      next
        case False
        with eq no4 \<open>\<not> 16 \<le> length ip\<close> have colon: "hd rest = CHR '':''" "length rest \<noteq> 1"
          by (auto split: if_splits)
        with False obtain c r where rest: "rest = CHR '':'' # c # r" by (cases rest; cases "tl rest") auto
        show thesis
        proof (cases "c = CHR '':''")
          case True
          have n: "ell = None" using eq rest no4 \<open>\<not> 16 \<le> length ip\<close> True by (auto split: if_splits)
          show thesis
          proof (cases "r = []")
            case rnil: True
            then have "ell' \<noteq> None" using eq rest no4 \<open>\<not> 16 \<le> length ip\<close> True by (auto split: if_splits)
            with n ends cr rest True show thesis by simp
          next
            case rcons: False
            then have "v6_loop (ip @ group_bytes g) (Some (length (ip @ group_bytes g))) r = Some (ip', ell')"
              using eq rest no4 \<open>\<not> 16 \<le> length ip\<close> True by (auto split: if_splits)
            with n ellipsis [of "group_bytes g" r] cr lr rest True show thesis by simp
          qed
        next
          case cno: False
          then have "v6_loop (ip @ group_bytes g) ell (c # r) = Some (ip', ell')"
            using eq rest no4 \<open>\<not> 16 \<le> length ip\<close> by (auto split: if_splits)
          with group [of "group_bytes g" "c # r"] cr lr rest cno show thesis by simp
        qed
      qed
    qed
  qed
qed

text \<open>How many colons an IPv6 address has: without an ellipsis each colon accounts for two bytes.\<close>

lemma v6_loop_colons:
  assumes "v6_loop ip ell s = Some (ip', ell')"
  shows "(ell \<noteq> None \<longrightarrow> ell' \<noteq> None) \<and> (ell = None \<longrightarrow> (if ell' = None
    then length ip' \<le> length ip + 2 * count_list s (CHR '':'') + 4 else 2 \<le> count_list s (CHR '':'')))"
  using assms
proof (induction s arbitrary: ip ell rule: measure_induct_rule [where f = length])
  case (less s)
  from less.prems show ?case
  proof (cases rule: v6_loop_cases)
    case (ellipsis bs r)
    with less.IH [OF ellipsis(4,5)] show ?thesis by auto
  next
    case (group bs r)
    with less.IH [OF group(3,4)] show ?thesis by (auto split: if_splits)
  qed auto
qed


lemma count_list_takeWhile: "count_list (takeWhile P s) c \<le> count_list s c"
  by (metis count_list_append le_add1 takeWhile_dropWhile_id)

lemma take2_colons: "take 2 s = ''::'' \<Longrightarrow> 2 \<le> count_list s (CHR '':'')"
  by (cases s; cases "tl s") (auto simp: numeral_2_eq_2)

lemma parseIPv6_colons:
  assumes "parseIPv6 s0 = Some r"
  shows "2 \<le> count_list s0 (CHR '':'')"
proof -
  define s where "s = takeWhile (\<lambda>c. c \<noteq> CHR ''%'') s0"
  have "2 \<le> count_list s (CHR '':'')"
  proof (cases "take 2 s = ''::''")
    case True
    then show ?thesis by (rule take2_colons)
  next
    case False
    then obtain ip where "v6_finish (v6_loop [] None s) = Some ip"
      using assms by (auto simp: parseIPv6_def s_def Let_def split: if_splits)
    then obtain ip' ell' where l: "v6_loop [] None s = Some (ip', ell')"
      and f: "length ip' < 16 \<Longrightarrow> ell' \<noteq> None" "\<not> length ip' < 16 \<Longrightarrow> ell' = None"
      by (auto simp: v6_finish_def split: option.splits if_splits)
    then show ?thesis using v6_loop_colons [OF l] by (cases "length ip' < 16") auto
  qed
  then show ?thesis using count_list_takeWhile le_trans s_def by metis
qed

lemma parseIPv6_bracket: "parseIPv6 (CHR ''['' # s) = None"
proof -
  have "v6_loop [] None (CHR ''['' # t) = None" for t
    using hex_not_colon(2) by (simp add: v6_loop.simps [of "[]"])
  then show ?thesis by (simp add: parseIPv6_def Let_def v6_finish_def take_Cons')
qed

text \<open>An endpoint with a port is not an address.\<close>

lemma host_port_no_addr:
  assumes "host_port s"
  shows "ParseAddr s = None"
proof -
  obtain host port where hp: "CHR '':'' \<notin> set port"
    "s = host @ '':'' @ port \<and> CHR '':'' \<notin> set host \<or> s = ''['' @ host @ '']:'' @ port"
    using assms by (auto simp: host_port_def)
  have "CHR '':'' \<in> set s" using hp(2) by auto
  then have v4: "parseIPv4 s = None" unfolding parseIPv4_def by (rule ipv4_loop_colon)
  have "parseIPv6 s = None"
  proof (cases "s = ''['' @ host @ '']:'' @ port")
    case True
    then show ?thesis by (simp add: parseIPv6_bracket)
  next
    case False
    with hp have "count_list s (CHR '':'') = 1" by (auto simp: count_list_0_iff)
    with parseIPv6_colons [of s] show ?thesis by (cases "parseIPv6 s") auto
  qed
  with v4 show ?thesis by (simp add: ParseAddr_def split: list.split)
qed

lemma host_port_no_cidr:
  assumes "host_port s"
  shows "ParseCIDR (s @ ''/32'') = None"
proof -
  have "CHR ''/'' \<notin> set s" using assms by (auto simp: host_port_def)
  then have "\<And>c. c \<in> set s \<Longrightarrow> c \<noteq> CHR ''/''" by blast
  from takeWhile_append2 [of s "\<lambda>c. c \<noteq> CHR ''/''", OF this]
  have "takeWhile (\<lambda>c. c \<noteq> CHR ''/'') (s @ ''/32'') = s" by simp
  then show ?thesis using host_port_no_addr [OF assms] by (simp add: ParseCIDR_def Let_def)
qed

text \<open>A dotted quadruple of decimal numbers parses exactly when no number exceeds 255.\<close>

definition dotted :: "nat \<Rightarrow> nat \<Rightarrow> nat \<Rightarrow> nat \<Rightarrow> string" where
  "dotted a b c d = dec a @ ''.'' @ dec b @ ''.'' @ dec c @ ''.'' @ dec d"

lemma parseIPv4_dotted:
  "parseIPv4 (dotted a b c d) =
     (if a \<le> 255 \<and> b \<le> 255 \<and> c \<le> 255 \<and> d \<le> 255 then Some [of_nat a, of_nat b, of_nat c, of_nat d] else None)"
proof -
  have field: "ipv4_loop prev 0 0 fs (dec n @ CHR ''.'' # dec m @ rest) =
      (if n > 255 then None else if length fs = 3 then None
       else ipv4_loop (Some (CHR ''.'')) 0 0 (fs @ [of_nat n]) (dec m @ rest))" for prev fs n m rest
  proof -
    obtain p where p: "ipv4_loop prev 0 0 fs (dec n @ CHR ''.'' # dec m @ rest) =
        (if n > 255 then None else ipv4_loop (Some p) n (length (dec n)) fs (CHR ''.'' # dec m @ rest))"
      "is_digit p" using ipv4_loop_dec by blast
    then have "p \<noteq> CHR ''.''" by auto
    then show ?thesis unfolding p(1) by simp
  qed
  have last: "ipv4_loop prev 0 0 fs (dec n) =
      (if n > 255 then None else if length fs < 3 then None else Some (fs @ [of_nat n]))" for prev fs n
    using ipv4_loop_dec [of prev fs n "[]"] by auto
  have field': "ipv4_loop prev 0 0 fs (dec n @ CHR ''.'' # dec m) =
      (if n > 255 then None else if length fs = 3 then None
       else ipv4_loop (Some (CHR ''.'')) 0 0 (fs @ [of_nat n]) (dec m))" for prev fs n m
    using field [of prev fs n m "[]"] by simp
  show ?thesis by (auto simp: parseIPv4_def dotted_def field field' last)
qed

end
