(* ===== verification/Wireguard_Manager.thy ===== *)
theory Wireguard_Manager
  imports GoNet Base64 GoConn
begin

text \<open>
  \<^verbatim>\<open>camo-wireguard/main.go\<close>: adding, removing and listing WireGuard peers, and the socket API.  The
  package \<^verbatim>\<open>wgctrl\<close>, which configures the kernel device, and the resolver of UDP addresses are
  parameters.
\<close>

section \<open>Parameters\<close>

record UDPAddr =
  udp_IP :: bytes
  udp_Port :: int

text \<open>The fields of \<^verbatim>\<open>wgtypes.PeerConfig\<close> and \<^verbatim>\<open>wgtypes.Peer\<close> that the program uses.\<close>

record PeerConfig =
  pc_PublicKey :: bytes
  pc_Remove :: bool
  pc_Endpoint :: "UDPAddr option"
  pc_Keepalive :: "duration option"
  pc_ReplaceAllowedIPs :: bool
  pc_AllowedIPs :: "IPNet list"

record DevicePeer =
  dp_PublicKey :: bytes
  dp_Endpoint :: "UDPAddr option"
  dp_AllowedIPs :: "IPNet list"
  dp_LastHandshake :: instant

record 'd wgctrl =
  wc_ConfigureDevice :: "string \<Rightarrow> PeerConfig list \<Rightarrow> 'd \<Rightarrow> 'd \<times> goerr option"
  wc_Device :: "string \<Rightarrow> 'd \<Rightarrow> goerr + DevicePeer list"
  wc_ResolveUDPAddr :: "string \<Rightarrow> goerr + UDPAddr"
  wc_UDPAddr_String :: "UDPAddr \<Rightarrow> string"
  wc_IPNet_String :: "IPNet \<Rightarrow> string"

text \<open>The resolver accepts \<^verbatim>\<open>host:port\<close> only.\<close>

definition resolver_ok :: "'d wgctrl \<Rightarrow> bool" where
  "resolver_ok wc \<longleftrightarrow> (\<forall>s u. wc_ResolveUDPAddr wc s = Inr u \<longrightarrow> host_port s)"

text \<open>
  What a device that accepted the configuration of a peer reports about it: the peer, with the given
  addresses if they were to replace the old ones.  A peer with the public key of the interface
  itself, \<open>own\<close>, is silently ignored by WireGuard and excluded here; reading the device may fail.
\<close>

definition device_ok :: "'d wgctrl \<Rightarrow> (string \<Rightarrow> 'd \<Rightarrow> bytes) \<Rightarrow> bool" where
  "device_ok wc own \<longleftrightarrow> (\<forall>name cfg d d' ps. wc_ConfigureDevice wc name [cfg] d = (d', None) \<and> \<not> pc_Remove cfg
     \<and> pc_PublicKey cfg \<noteq> own name d \<and> wc_Device wc name d' = Inr ps \<longrightarrow>
     (\<exists>p \<in> set ps. dp_PublicKey p = pc_PublicKey cfg
        \<and> (pc_ReplaceAllowedIPs cfg \<longrightarrow> dp_AllowedIPs p = pc_AllowedIPs cfg)))"

section \<open>Configuration\<close>

record wgConfig =
  wg_InterfaceName :: string
  wg_ListenPort :: int
  wg_PrivateKeyPath :: string

definition defaultWGConfig :: wgConfig where
  "defaultWGConfig = \<lparr>wg_InterfaceName = ''camo0'', wg_ListenPort = 51820, wg_PrivateKeyPath = ''/var/lib/camo/wg.key''\<rparr>"


section \<open>Peers\<close>

record wgPeer =
  wp_PublicKey :: string
  wp_Endpoint :: string
  wp_AllowedIPs :: "string list"
  wp_LastHandshake :: instant

text \<open>\<^verbatim>\<open>copy(pubKey[:], bs)\<close> into a zeroed array of 32 bytes.\<close>

definition copy_key :: "bytes \<Rightarrow> bytes" where
  "copy_key bs = take 32 bs @ replicate (32 - length bs) 0"

definition addPeer :: "'d wgctrl \<Rightarrow> wgConfig \<Rightarrow> string \<Rightarrow> string \<Rightarrow> string \<Rightarrow> 'd \<Rightarrow> 'd \<times> goerr option" where
  "addPeer wc cfg pubKeyB64 endpoint allowedIP d =
     (case DecodeString StdEncoding pubKeyB64 of
        Inl e \<Rightarrow> (d, Some e)
      | Inr pubKeyBytes \<Rightarrow>
          (let peerCfg = \<lparr>pc_PublicKey = copy_key pubKeyBytes, pc_Remove = False, pc_Endpoint = None,
                          pc_Keepalive = Some (25 * second), pc_ReplaceAllowedIPs = True, pc_AllowedIPs = []\<rparr>
           in case (if endpoint = [] then Inr peerCfg
                    else case wc_ResolveUDPAddr wc endpoint of
                           Inl e \<Rightarrow> Inl e
                         | Inr a \<Rightarrow> Inr (peerCfg\<lparr>pc_Endpoint := Some a\<rparr>)) of
                Inl e \<Rightarrow> (d, Some e)
              | Inr peerCfg1 \<Rightarrow>
                  (case (if allowedIP = [] then Inr peerCfg1
                         else case ParseCIDR allowedIP of
                                None \<Rightarrow> Inl (LibError ''invalid CIDR address'')
                              | Some ipNet \<Rightarrow> Inr (peerCfg1\<lparr>pc_AllowedIPs := [ipNet]\<rparr>)) of
                     Inl e \<Rightarrow> (d, Some e)
                   | Inr peerCfg2 \<Rightarrow> wc_ConfigureDevice wc (wg_InterfaceName cfg) [peerCfg2] d)))"

definition removePeer :: "'d wgctrl \<Rightarrow> wgConfig \<Rightarrow> string \<Rightarrow> 'd \<Rightarrow> 'd \<times> goerr option" where
  "removePeer wc cfg pubKeyB64 d =
     (case DecodeString StdEncoding pubKeyB64 of
        Inl e \<Rightarrow> (d, Some e)
      | Inr pubKeyBytes \<Rightarrow>
          wc_ConfigureDevice wc (wg_InterfaceName cfg)
            [\<lparr>pc_PublicKey = copy_key pubKeyBytes, pc_Remove = True, pc_Endpoint = None, pc_Keepalive = None,
              pc_ReplaceAllowedIPs = False, pc_AllowedIPs = []\<rparr>] d)"

definition list_peer :: "'d wgctrl \<Rightarrow> DevicePeer \<Rightarrow> wgPeer" where
  "list_peer wc p =
     \<lparr>wp_PublicKey = EncodeToString StdEncoding (dp_PublicKey p),
      wp_Endpoint = (case dp_Endpoint p of None \<Rightarrow> [] | Some a \<Rightarrow> wc_UDPAddr_String wc a),
      wp_AllowedIPs = map (wc_IPNet_String wc) (dp_AllowedIPs p),
      wp_LastHandshake = dp_LastHandshake p\<rparr>"

definition listPeers :: "'d wgctrl \<Rightarrow> wgConfig \<Rightarrow> 'd \<Rightarrow> goerr + wgPeer list" where
  "listPeers wc cfg d =
     (case wc_Device wc (wg_InterfaceName cfg) d of
        Inl e \<Rightarrow> Inl e
      | Inr ps \<Rightarrow> Inr (map (list_peer wc) ps))"

section \<open>API\<close>

record wgAPIRequest =
  wreq_Command :: string
  wreq_PublicKey :: string
  wreq_Endpoint :: string
  wreq_AllowedIP :: string
  wreq_PeerID :: string

record wgAPIResponse =
  wresp_Status :: string
  wresp_Command :: string
  wresp_Peers :: "wgPeer list"
  wresp_Message :: string

definition wg_resp0 :: wgAPIResponse where
  "wg_resp0 = \<lparr>wresp_Status = [], wresp_Command = [], wresp_Peers = [], wresp_Message = []\<rparr>"

text \<open>\<^verbatim>\<open>s[:8]\<close>, which panics when the string is shorter.\<close>

definition slice8 :: "string \<Rightarrow> string go" where
  "slice8 s = (if length s < 8 then Panic ''slice bounds out of range'' else Ret (take 8 s))"

definition handle_wg_line :: "'d wgctrl \<Rightarrow> wgConfig \<Rightarrow> goerr + wgAPIRequest \<Rightarrow> 'd \<Rightarrow> ('d \<times> wgAPIResponse) go" where
  "handle_wg_line wc cfg line d =
     (case line of
        Inl e \<Rightarrow> Ret (d, wg_resp0\<lparr>wresp_Status := ''error'', wresp_Message := ''invalid request''\<rparr>)
      | Inr req \<Rightarrow>
          if wreq_Command req = ''add_peer'' then
            (case addPeer wc cfg (wreq_PublicKey req) (wreq_Endpoint req) (wreq_AllowedIP req) d of
               (d', Some err) \<Rightarrow> Ret (d', wg_resp0\<lparr>wresp_Status := ''error'', wresp_Command := wreq_Command req,
                                       wresp_Message := err_text err\<rparr>)
             | (d', None) \<Rightarrow> bind_go (slice8 (wreq_PublicKey req)) (\<lambda>_.
                 Ret (d', wg_resp0\<lparr>wresp_Status := ''ok'', wresp_Command := wreq_Command req\<rparr>)))
          else if wreq_Command req = ''remove_peer'' then
            (case removePeer wc cfg (wreq_PublicKey req) d of
               (d', Some err) \<Rightarrow> Ret (d', wg_resp0\<lparr>wresp_Status := ''error'', wresp_Command := wreq_Command req,
                                       wresp_Message := err_text err\<rparr>)
             | (d', None) \<Rightarrow> bind_go (slice8 (wreq_PublicKey req)) (\<lambda>_.
                 Ret (d', wg_resp0\<lparr>wresp_Status := ''ok'', wresp_Command := wreq_Command req\<rparr>)))
          else if wreq_Command req = ''list_peers'' then
            (case listPeers wc cfg d of
               Inl err \<Rightarrow> Ret (d, wg_resp0\<lparr>wresp_Status := ''error'', wresp_Command := wreq_Command req,
                              wresp_Message := err_text err\<rparr>)
             | Inr peers \<Rightarrow> Ret (d, wg_resp0\<lparr>wresp_Status := ''ok'', wresp_Command := wreq_Command req,
                              wresp_Peers := peers\<rparr>))
          else Ret (d, wg_resp0\<lparr>wresp_Status := ''error'', wresp_Command := wreq_Command req,
                 wresp_Message := ''unknown command''\<rparr>))"

text \<open>A connection: the answers up to the end of the input or a panic.\<close>

fun handleConn_wg :: "'d wgctrl \<Rightarrow> wgConfig \<Rightarrow> (goerr + wgAPIRequest) list \<Rightarrow> 'd \<Rightarrow> ('d \<times> wgAPIResponse list) go" where
  "handleConn_wg wc cfg [] d = Ret (d, [])"
| "handleConn_wg wc cfg (line # rest) d =
     bind_go (handle_wg_line wc cfg line d) (\<lambda>(d1, resp).
       bind_go (handleConn_wg wc cfg rest d1) (\<lambda>(d2, resps). Ret (d2, resp # resps)))"

section \<open>The running program\<close>







section \<open>Lemmas\<close>

lemma length_copy_key [simp]: "length (copy_key bs) = 32"
  by (simp add: copy_key_def)

lemma copy_key_exact: "length bs = 32 \<Longrightarrow> copy_key bs = bs"
  by (simp add: copy_key_def)

lemma ParseAddr_Nil: "ParseAddr [] = None"
  by (simp add: ParseAddr_def)

lemma ParseCIDR_empty: "ParseCIDR ''/32'' = None"
  by (simp add: ParseCIDR_def Let_def ParseAddr_Nil)

text \<open>The addresses of the circuit controller: an endpoint with a prefix length appended.\<close>

lemma addPeer_endpoint_prefix:
  assumes "resolver_ok wc"
  shows "\<exists>e. addPeer wc cfg key endpoint (endpoint @ ''/32'') d = (d, Some e)"
proof -
  have "ParseCIDR (endpoint @ ''/32'') = None" if "endpoint = [] \<or> wc_ResolveUDPAddr wc endpoint = Inr u" for u
    using that assms host_port_no_cidr ParseCIDR_empty by (auto simp: resolver_ok_def)
  then show ?thesis
    by (cases "endpoint = []"; cases "wc_ResolveUDPAddr wc endpoint") (auto simp: addPeer_def Let_def split: sum.split)
qed












section \<open>A device for the examples\<close>

text \<open>A device as the list of its peers, keyed by their public keys.\<close>

definition ex_configure :: "string \<Rightarrow> PeerConfig list \<Rightarrow> DevicePeer list \<Rightarrow> DevicePeer list \<times> goerr option" where
  "ex_configure name cfgs d =
     (fold (\<lambda>c d. if pc_Remove c then filter (\<lambda>p. dp_PublicKey p \<noteq> pc_PublicKey c) d
        else \<lparr>dp_PublicKey = pc_PublicKey c, dp_Endpoint = pc_Endpoint c, dp_AllowedIPs = pc_AllowedIPs c,
              dp_LastHandshake = 0\<rparr> # filter (\<lambda>p. dp_PublicKey p \<noteq> pc_PublicKey c) d) cfgs d, None)"

definition ex_wgctrl :: "DevicePeer list wgctrl" where
  "ex_wgctrl = \<lparr>wc_ConfigureDevice = ex_configure, wc_Device = (\<lambda>name d. Inr d),
     wc_ResolveUDPAddr = (\<lambda>s. if s = ''h:1'' then Inr \<lparr>udp_IP = [], udp_Port = 1\<rparr> else Inl (LibError ''lookup'')),
     wc_UDPAddr_String = (\<lambda>a. []), wc_IPNet_String = (\<lambda>n. [])\<rparr>"

lemma ex_resolver_ok: "resolver_ok ex_wgctrl"
proof -
  have "host_port ''h:1''"
    unfolding host_port_def by (intro exI [of _ "''h''"] exI [of _ "''1''"]) simp
  then show ?thesis by (simp add: resolver_ok_def ex_wgctrl_def)
qed

lemma ex_device_ok: "device_ok ex_wgctrl own"
  by (auto simp: device_ok_def ex_wgctrl_def ex_configure_def)

section \<open>Properties\<close>

text \<open>C32. Adding a peer with a complete key of 32 bytes, other than the interface's own, and a network as its
  allowed address.  When it succeeds, any listing of the device's peers contains a peer under
  exactly the key that was given, with that network as its only allowed address.  When it fails,
  either the endpoint could not be resolved and the device is as before, or the device was asked
  to configure this peer and reported the error.\<close>

theorem addPeer_listed:
  assumes "device_ok wc own" and "length k = 32" and "k \<noteq> own (wg_InterfaceName cfg) d" and "ParseCIDR allowedIP = Some net"
  shows "case addPeer wc cfg (EncodeToString StdEncoding k) endpoint allowedIP d of
      (d', None) \<Rightarrow> (\<forall>peers. listPeers wc cfg d' = Inr peers \<longrightarrow>
        (\<exists>p \<in> set peers. wp_PublicKey p = EncodeToString StdEncoding k \<and> wp_AllowedIPs p = [wc_IPNet_String wc net]))
    | (d', Some e) \<Rightarrow> endpoint \<noteq> [] \<and> wc_ResolveUDPAddr wc endpoint = Inl e \<and> d' = d
        \<or> (\<exists>c. pc_PublicKey c = k \<and> pc_AllowedIPs c = [net] \<and> wc_ConfigureDevice wc (wg_InterfaceName cfg) [c] d = (d', Some e))"
proof -
  have ne: "allowedIP \<noteq> []" using assms(4) by (auto simp: ParseCIDR_def)
  consider (unresolved) e where "endpoint \<noteq> []" "wc_ResolveUDPAddr wc endpoint = Inl e"
      "addPeer wc cfg (EncodeToString StdEncoding k) endpoint allowedIP d = (d, Some e)"
    | (asked) c where "addPeer wc cfg (EncodeToString StdEncoding k) endpoint allowedIP d =
        wc_ConfigureDevice wc (wg_InterfaceName cfg) [c] d"
      "\<not> pc_Remove c" "pc_PublicKey c = k" "pc_ReplaceAllowedIPs c" "pc_AllowedIPs c = [net]"
    using assms(2,4) ne
    by (cases "endpoint = []"; cases "wc_ResolveUDPAddr wc endpoint")
      (auto simp: addPeer_def std.roundtrip copy_key_exact Let_def simp del: EncodeToString.simps)
  then show ?thesis
  proof cases
    case unresolved
    then show ?thesis by simp
  next
    case asked
    show ?thesis
    proof (cases "snd (wc_ConfigureDevice wc (wg_InterfaceName cfg) [c] d)")
      case None
      then obtain d' where d': "wc_ConfigureDevice wc (wg_InterfaceName cfg) [c] d = (d', None)" by (metis prod.collapse)
      have "\<exists>p \<in> set peers. wp_PublicKey p = EncodeToString StdEncoding k \<and> wp_AllowedIPs p = [wc_IPNet_String wc net]"
        if l: "listPeers wc cfg d' = Inr peers" for peers
      proof -
        obtain ps where ps: "wc_Device wc (wg_InterfaceName cfg) d' = Inr ps" "peers = map (list_peer wc) ps"
          using l by (auto simp: listPeers_def split: sum.splits)
        then obtain p where "p \<in> set ps" "dp_PublicKey p = k" "dp_AllowedIPs p = [net]"
          using assms(1,3) d' asked(2-5) unfolding device_ok_def by metis
        then show ?thesis using ps(2) by (auto simp: list_peer_def simp del: EncodeToString.simps)
      qed
      then show ?thesis using asked(1) d' by simp
    next
      case (Some e)
      then obtain d' where "wc_ConfigureDevice wc (wg_InterfaceName cfg) [c] d = (d', Some e)" by (metis prod.collapse)
      then show ?thesis using asked by auto
    qed
  qed
qed

theorem addPeer_listed_witness:
  "\<exists>peers p. listPeers ex_wgctrl defaultWGConfig
      (fst (addPeer ex_wgctrl defaultWGConfig (EncodeToString StdEncoding (replicate 32 7)) [] ''10.0.0.1/32'' [])) = Inr peers
    \<and> p \<in> set peers \<and> wp_PublicKey p = EncodeToString StdEncoding (replicate 32 7)"
proof -
  have "parseIPv4 ''10.0.0.1'' = Some [10, 0, 0, 1]"
    by (simp add: parseIPv4_def is_digit_def digit_val_def)
  then have "ParseAddr ''10.0.0.1'' = Some ([10, 0, 0, 1], [])"
    by (simp add: ParseAddr_def)
  moreover have "prefix_bits ''32'' = Some 32"
    by (simp add: prefix_bits_def is_digit_def dec_val_def digit_val_def)
  ultimately obtain net where net: "ParseCIDR ''10.0.0.1/32'' = Some net"
    by (simp add: ParseCIDR_def)
  let ?a = "addPeer ex_wgctrl defaultWGConfig (EncodeToString StdEncoding (replicate 32 7)) [] ''10.0.0.1/32'' []"
  have "snd ?a = None"
    by (simp add: addPeer_def std.roundtrip net ex_wgctrl_def ex_configure_def Let_def del: EncodeToString.simps)
  then obtain d1 where a: "?a = (d1, None)" by (metis prod.collapse)
  have l: "listPeers ex_wgctrl defaultWGConfig d = Inr (map (list_peer ex_wgctrl) d)" for d
    by (simp add: listPeers_def ex_wgctrl_def)
  show ?thesis
    using addPeer_listed [where own = "\<lambda>name d. replicate 32 0" and k = "replicate 32 7" and endpoint = "[]"
        and cfg = defaultWGConfig and d = "[]", OF ex_device_ok _ _ net]
    unfolding a by (auto simp: l simp del: EncodeToString.simps)
qed




text \<open>The command \<^verbatim>\<open>status\<close>, which the comment on the request type lists, is not implemented.\<close>

theorem status_unknown:
  assumes "wreq_Command req = ''status''"
  shows "handle_wg_line wc cfg (Inr req) d = Ret (d, \<lparr>wresp_Status = ''error'', wresp_Command = ''status'', wresp_Peers = [],
    wresp_Message = ''unknown command''\<rparr>)"
  using assms by (simp add: handle_wg_line_def wg_resp0_def)

text \<open>A successful request with a key of fewer than eight characters ends the process: the log
  message slices the key.  The empty key is such a key, and it decodes.\<close>

theorem short_key_panics:
  assumes "length key < 8" and "removePeer wc cfg key d = (d', None)"
  shows "handle_wg_line wc cfg (Inr \<lparr>wreq_Command = ''remove_peer'', wreq_PublicKey = key, wreq_Endpoint = e,
    wreq_AllowedIP = a, wreq_PeerID = i\<rparr>) d = Panic ''slice bounds out of range''"
  using assms by (simp add: handle_wg_line_def slice8_def)

theorem short_key_panics_witness:
  "handle_wg_line ex_wgctrl defaultWGConfig (Inr \<lparr>wreq_Command = ''remove_peer'', wreq_PublicKey = [],
    wreq_Endpoint = [], wreq_AllowedIP = [], wreq_PeerID = []\<rparr>) [] = Panic ''slice bounds out of range''"
proof -
  have "DecodeString StdEncoding [] = Inr []" using std.roundtrip [of "[]"] by simp
  then have "removePeer ex_wgctrl defaultWGConfig [] [] = ([], None)"
    by (simp add: removePeer_def ex_wgctrl_def ex_configure_def)
  then show ?thesis by (intro short_key_panics) simp_all
qed

end
