(* ===== verification/Apn_Mock.thy ===== *)
theory Apn_Mock
  imports GoNet
begin

text \<open>
  \<^verbatim>\<open>camo-apncore/mock/mock.go\<close>: the in-memory adapter with its own types, sessions and their numbers,
  routes, and the event channel.
\<close>

section \<open>Types of the package\<close>

record mockSession =
  mse_IMSI :: string
  mse_GTPTEID :: "32 word"
  mse_DeviceIP :: string
  mse_CreatedAt :: instant

record mockRouteRule =
  mrr_IMSI :: string
  mrr_NextHopWireGuardIP :: string
  mrr_SessionToken :: string

type_synonym mockSessionEventType = string

definition mock_EventSessionCreated :: mockSessionEventType where "mock_EventSessionCreated = ''session_created''"
definition mock_EventSessionTerminated :: mockSessionEventType where "mock_EventSessionTerminated = ''session_terminated''"

record mockSessionEvent =
  msv_Type :: mockSessionEventType
  msv_Session :: mockSession

section \<open>The adapter\<close>

text \<open>The event channel holds up to 64 events; a sender that finds it full waits.\<close>

record mockAdapter =
  ma_sessions :: "(string, mockSession) gomap"
  ma_routes :: "(string, mockRouteRule) gomap"
  ma_events :: "mockSessionEvent list"
  ma_teidSeq :: "32 word"
  ma_ipSeq :: int

definition mock_New :: mockAdapter where
  "mock_New = \<lparr>ma_sessions = [], ma_routes = [], ma_events = [], ma_teidSeq = 0, ma_ipSeq = 0\<rparr>"

definition mock_SetRoute :: "mockRouteRule \<Rightarrow> mockAdapter \<Rightarrow> mockAdapter \<times> goerr option" where
  "mock_SetRoute rule a = (a\<lparr>ma_routes := mput (mrr_IMSI rule) rule (ma_routes a)\<rparr>, None)"

definition mock_ClearRoute :: "string \<Rightarrow> mockAdapter \<Rightarrow> mockAdapter \<times> goerr option" where
  "mock_ClearRoute imsi a = (a\<lparr>ma_routes := mdel imsi (ma_routes a)\<rparr>, None)"

definition mock_ListSessions :: "string list \<Rightarrow> mockAdapter \<Rightarrow> goerr + mockSession list" where
  "mock_ListSessions ord a = Inr (range_vals (ma_sessions a) ord)"

definition eventCapacity :: nat where "eventCapacity = 64"

text \<open>Sending to the channel; \<open>None\<close> while it is full.\<close>

definition send_event :: "mockSessionEvent \<Rightarrow> mockAdapter \<Rightarrow> mockAdapter option" where
  "send_event ev a =
     (if length (ma_events a) < eventCapacity then Some (a\<lparr>ma_events := ma_events a @ [ev]\<rparr>) else None)"

definition device_ip :: "int \<Rightarrow> string" where
  "device_ip n = ''10.0.'' @ dec (nat (n div 256)) @ ''.'' @ dec (nat (n mod 256))"

text \<open>
  A device connects: the part under the lock, and the event that is sent afterwards.  \<^verbatim>\<open>ipSeq\<close> is
  a 64-bit counter that starts at zero and only grows.
\<close>

definition connect_locked :: "string \<Rightarrow> instant \<Rightarrow> mockAdapter \<Rightarrow> mockAdapter \<times> mockSessionEvent" where
  "connect_locked imsi now a =
     (let teid = ma_teidSeq a + 1; ip = wrap64 (ma_ipSeq a + 1);
          s = \<lparr>mse_IMSI = imsi, mse_GTPTEID = teid, mse_DeviceIP = device_ip ip, mse_CreatedAt = now\<rparr>
      in (a\<lparr>ma_teidSeq := teid, ma_ipSeq := ip, ma_sessions := mput imsi s (ma_sessions a)\<rparr>,
          \<lparr>msv_Type = mock_EventSessionCreated, msv_Session = s\<rparr>))"

definition SimulateConnect :: "string \<Rightarrow> instant \<Rightarrow> mockAdapter \<Rightarrow> mockAdapter option" where
  "SimulateConnect imsi now a = (let (a', ev) = connect_locked imsi now a in send_event ev a')"

definition SimulateDisconnect :: "string \<Rightarrow> mockAdapter \<Rightarrow> mockAdapter option" where
  "SimulateDisconnect imsi a =
     (case mget (ma_sessions a) imsi of
        None \<Rightarrow> Some a
      | Some s \<Rightarrow> send_event \<lparr>msv_Type = mock_EventSessionTerminated, msv_Session = s\<rparr>
                    (a\<lparr>ma_sessions := mdel imsi (ma_sessions a)\<rparr>))"

text \<open>Receiving from the channel; \<open>None\<close> while it is empty.\<close>

definition take_event :: "mockAdapter \<Rightarrow> (mockSessionEvent \<times> mockAdapter) option" where
  "take_event a = (case ma_events a of [] \<Rightarrow> None | ev # evs \<Rightarrow> Some (ev, a\<lparr>ma_events := evs\<rparr>))"

section \<open>Numbers of sessions\<close>

text \<open>
  The life of the adapter, for fewer than \<open>2 ^ 63\<close> connections: devices connect and disconnect,
  events are sent and taken.
\<close>

inductive device_step :: "mockAdapter \<Rightarrow> mockAdapter \<Rightarrow> bool" where
  connect: "ma_ipSeq a < 2 ^ 63 - 1 \<Longrightarrow> device_step a (fst (connect_locked imsi now a))"
| disconnect: "device_step a (a\<lparr>ma_sessions := mdel imsi (ma_sessions a)\<rparr>)"
| send: "send_event ev a = Some a' \<Longrightarrow> device_step a a'"
| taken: "take_event a = Some (ev, a') \<Longrightarrow> device_step a a'"

text \<open>Every session has a number of its own, from which its tunnel identifier and address derive.\<close>

definition numbered :: "mockSession \<Rightarrow> int \<Rightarrow> bool" where
  "numbered s n \<longleftrightarrow> mse_GTPTEID s = word_of_int n \<and> mse_DeviceIP s = device_ip n"

definition mock_inv :: "mockAdapter \<Rightarrow> bool" where
  "mock_inv a \<longleftrightarrow> mwf (ma_sessions a) \<and> 0 \<le> ma_ipSeq a \<and> ma_ipSeq a < 2 ^ 63 \<and> ma_teidSeq a = word_of_int (ma_ipSeq a)
     \<and> length (ma_events a) \<le> eventCapacity
     \<and> (\<exists>num. (\<forall>i s. mget (ma_sessions a) i = Some s \<longrightarrow>
            mse_IMSI s = i \<and> numbered s (num i) \<and> 1 \<le> num i \<and> num i \<le> ma_ipSeq a)
          \<and> (\<forall>i j. mget (ma_sessions a) i \<noteq> None \<and> mget (ma_sessions a) j \<noteq> None \<and> num i = num j \<longrightarrow> i = j))"

lemma mock_inv_connect:
  assumes "mock_inv a" and "ma_ipSeq a < 2 ^ 63 - 1"
  shows "mock_inv (fst (connect_locked imsi now a))"
proof -
  obtain num where num: "\<And>i s. mget (ma_sessions a) i = Some s \<Longrightarrow>
      mse_IMSI s = i \<and> numbered s (num i) \<and> 1 \<le> num i \<and> num i \<le> ma_ipSeq a"
    and inj: "\<And>i j. mget (ma_sessions a) i \<noteq> None \<Longrightarrow> mget (ma_sessions a) j \<noteq> None \<Longrightarrow> num i = num j \<Longrightarrow> i = j"
    using assms(1) unfolding mock_inv_def by blast
  let ?n = "ma_ipSeq a + 1" and ?t = "fst (connect_locked imsi now a)"
  let ?s = "\<lparr>mse_IMSI = imsi, mse_GTPTEID = word_of_int ?n, mse_DeviceIP = device_ip ?n, mse_CreatedAt = now\<rparr>"
  have pos: "0 \<le> ma_ipSeq a" using assms(1) by (simp add: mock_inv_def)
  have w: "wrap64 ?n = ?n" using pos assms(2) by (simp add: in_int64_def)
  have teid: "ma_teidSeq a + 1 = word_of_int ?n" using assms(1) by (simp add: mock_inv_def)
  have t: "ma_sessions ?t = mput imsi ?s (ma_sessions a)" "ma_ipSeq ?t = ?n" "ma_teidSeq ?t = word_of_int ?n"
    "ma_events ?t = ma_events a"
    by (simp_all add: connect_locked_def Let_def w teid)
  have "mse_IMSI s = i \<and> numbered s ((num(imsi := ?n)) i) \<and> 1 \<le> (num(imsi := ?n)) i \<and> (num(imsi := ?n)) i \<le> ?n"
    if "mget (mput imsi ?s (ma_sessions a)) i = Some s" for i s
    using that num [of i s] pos by (cases "i = imsi") (auto simp: numbered_def)
  moreover have "i = j" if "mget (mput imsi ?s (ma_sessions a)) i \<noteq> None" "mget (mput imsi ?s (ma_sessions a)) j \<noteq> None"
    "(num(imsi := ?n)) i = (num(imsi := ?n)) j" for i j
  proof -
    have "num k \<noteq> ?n" if "k \<noteq> imsi" "mget (mput imsi ?s (ma_sessions a)) k \<noteq> None" for k
      using num [of k] that by fastforce
    with that inj [of i j] show ?thesis by (auto split: if_splits)
  qed
  ultimately have ex: "\<exists>num. (\<forall>i s. mget (mput imsi ?s (ma_sessions a)) i = Some s \<longrightarrow>
        mse_IMSI s = i \<and> numbered s (num i) \<and> 1 \<le> num i \<and> num i \<le> ?n)
      \<and> (\<forall>i j. mget (mput imsi ?s (ma_sessions a)) i \<noteq> None \<and> mget (mput imsi ?s (ma_sessions a)) j \<noteq> None
          \<and> num i = num j \<longrightarrow> i = j)"
    by (intro exI [of _ "num(imsi := ?n)"]) blast
  have "mwf (mput imsi ?s (ma_sessions a))" "length (ma_events a) \<le> eventCapacity"
    using assms(1) unfolding mock_inv_def by blast+
  with ex pos assms(2) show ?thesis
    unfolding mock_inv_def t by simp
qed

text \<open>Fewer sessions, or other routes and events, keep the invariant.\<close>

lemma mock_inv_shrink:
  assumes "mock_inv a" and "mwf (ma_sessions b)" and "\<And>i s. mget (ma_sessions b) i = Some s \<Longrightarrow> mget (ma_sessions a) i = Some s"
    and "ma_ipSeq b = ma_ipSeq a" and "ma_teidSeq b = ma_teidSeq a" and "length (ma_events b) \<le> eventCapacity"
  shows "mock_inv b"
proof -
  obtain num where num: "\<And>i s. mget (ma_sessions a) i = Some s \<Longrightarrow>
      mse_IMSI s = i \<and> numbered s (num i) \<and> 1 \<le> num i \<and> num i \<le> ma_ipSeq a"
    and inj: "\<And>i j. mget (ma_sessions a) i \<noteq> None \<Longrightarrow> mget (ma_sessions a) j \<noteq> None \<Longrightarrow> num i = num j \<Longrightarrow> i = j"
    using assms(1) unfolding mock_inv_def by blast
  have dom: "mget (ma_sessions b) i \<noteq> None \<Longrightarrow> mget (ma_sessions a) i \<noteq> None" for i
    using assms(3) by (metis not_None_eq)
  have "(\<forall>i s. mget (ma_sessions b) i = Some s \<longrightarrow> mse_IMSI s = i \<and> numbered s (num i) \<and> 1 \<le> num i \<and> num i \<le> ma_ipSeq b)
      \<and> (\<forall>i j. mget (ma_sessions b) i \<noteq> None \<and> mget (ma_sessions b) j \<noteq> None \<and> num i = num j \<longrightarrow> i = j)"
    unfolding assms(4) using num assms(3) dom inj by blast
  then show ?thesis
    using assms(1,2,4,5,6) unfolding mock_inv_def by (intro conjI exI [of _ num]) simp_all
qed

lemma mock_inv_device:
  assumes a: "mock_inv a" and "device_step a b"
  shows "mock_inv b"
proof -
  have f: "mwf (ma_sessions a)" "length (ma_events a) \<le> eventCapacity" using a unfolding mock_inv_def by blast+
  from assms(2) show ?thesis
  proof cases
    case (connect imsi now)
    then show ?thesis using mock_inv_connect [OF a] by simp
  next
    case (send ev)
    then show ?thesis using a f by (intro mock_inv_shrink [OF a]) (auto simp: send_event_def split: if_splits)
  next
    case (taken ev)
    then show ?thesis using a f by (intro mock_inv_shrink [OF a]) (auto simp: take_event_def split: list.splits)
  qed (use f in \<open>auto intro!: mock_inv_shrink [OF a] split: if_splits\<close>)
qed

lemma mock_inv_routes: "mock_inv a \<Longrightarrow> mock_inv (a\<lparr>ma_routes := rs\<rparr>)"
  by (simp add: mock_inv_def)

lemma mock_inv_New: "mock_inv mock_New"
  by (simp add: mock_inv_def mock_New_def)

interpretation devices: invariant_system "\<lambda>a. a = mock_New" device_step mock_inv
  using mock_inv_device mock_inv_New by unfold_locales auto

lemma dot_free: "CHR ''.'' \<notin> set (dec n)"
  using dec_digits [of "CHR ''.''" n] by auto

lemma device_ip_dotted: "device_ip n = dotted 10 0 (nat (n div 256)) (nat (n mod 256))"
proof -
  have "dec 10 = ''10''" "dec 0 = ''0''" by (simp_all add: dec.simps digit_zero digit_one)
  then show ?thesis by (simp add: device_ip_def dotted_def)
qed

lemma device_ip_inj:
  assumes "0 \<le> m" and "0 \<le> n" and "device_ip m = device_ip n"
  shows "m = n"
proof -
  have "dec (nat (m div 256)) @ CHR ''.'' # dec (nat (m mod 256)) = dec (nat (n div 256)) @ CHR ''.'' # dec (nat (n mod 256))"
    using assms(3) by (simp add: device_ip_def)
  then have "nat (m div 256) = nat (n div 256)" "nat (m mod 256) = nat (n mod 256)"
    by (simp_all add: append_Cons_eq_iff dot_free dec_inj)
  then have "m div 256 = n div 256" "m mod 256 = n mod 256"
    using assms(1,2) by (simp_all add: pos_imp_zdiv_nonneg_iff eq_nat_nat_iff)
  then show ?thesis by (metis div_mult_mod_eq)
qed

section \<open>Properties\<close>

text \<open>Sessions are filed under their own IMSI; addresses and tunnel identifiers do not repeat.\<close>

lemma mock_inv_distinct:
  assumes inv: "mock_inv a" and "mget (ma_sessions a) i = Some s" and "mget (ma_sessions a) j = Some t"
  shows "mse_IMSI s = i" and "mse_DeviceIP s = mse_DeviceIP t \<Longrightarrow> i = j"
    and "ma_ipSeq a < 2 ^ 32 \<Longrightarrow> mse_GTPTEID s = mse_GTPTEID t \<Longrightarrow> i = j"
proof -
  obtain num where num: "\<And>i s. mget (ma_sessions a) i = Some s \<Longrightarrow>
      mse_IMSI s = i \<and> numbered s (num i) \<and> 1 \<le> num i \<and> num i \<le> ma_ipSeq a"
    and inj: "\<And>i j. mget (ma_sessions a) i \<noteq> None \<Longrightarrow> mget (ma_sessions a) j \<noteq> None \<Longrightarrow> num i = num j \<Longrightarrow> i = j"
    using inv unfolding mock_inv_def by blast
  note s = num [OF assms(2)] and t = num [OF assms(3)]
  have eq: "num i = num j \<Longrightarrow> i = j" using inj [of i j] assms(2,3) by simp
  show "mse_IMSI s = i" using s by blast
  show "i = j" if "mse_DeviceIP s = mse_DeviceIP t"
    using that s t eq device_ip_inj [of "num i" "num j"] by (simp add: numbered_def)
  show "i = j" if "ma_ipSeq a < 2 ^ 32" "mse_GTPTEID s = mse_GTPTEID t"
  proof -
    have "(word_of_int (num i) :: 32 word) = word_of_int (num j)" using that(2) s t by (simp add: numbered_def)
    then have "num i mod 2 ^ 32 = num j mod 2 ^ 32" by (simp add: word_of_int_eq_iff take_bit_eq_mod)
    then show ?thesis using s t that(1) eq by simp
  qed
qed

text \<open>The address given to the \<open>n\<close>-th device is an IPv4 address exactly up to \<open>n = 65535\<close>; later ones
  have a third field above 255.\<close>

theorem device_ip_valid:
  assumes "0 \<le> n"
  shows "parseIPv4 (device_ip n) = (if n < 65536 then Some [10, 0, word_of_int (n div 256), word_of_int (n mod 256)] else None)"
proof -
  have "n mod 256 < 256" "0 \<le> n mod 256" "0 \<le> n div 256" using assms by (simp_all add: pos_imp_zdiv_nonneg_iff)
  moreover have "n div 256 \<le> 255 \<longleftrightarrow> n < 65536" by linarith
  ultimately show ?thesis by (auto simp: device_ip_dotted parseIPv4_dotted nat_le_iff)
qed

theorem device_ip_valid_witness:
  "parseIPv4 (device_ip 258) = Some [10, 0, 1, 2] \<and> parseIPv4 (device_ip 65536) = None"
  using device_ip_valid [of 258] device_ip_valid [of 65536] by simp

end
