(* ===== verification/Apn_Core.thy ===== *)
theory Apn_Core
  imports Apn_Mock GoConn
begin

text \<open>
  \<^verbatim>\<open>camo-apncore\<close>: the adapter interface (\<^verbatim>\<open>adapter.go\<close>), the wrapper of the in-memory adapter, the
  configuration and the start (\<^verbatim>\<open>main.go\<close>), and the socket API (\<^verbatim>\<open>api.go\<close>).
\<close>

section \<open>Sessions, routes and events\<close>

record Session =
  se_IMSI :: string
  se_GTPTEID :: "32 word"
  se_DeviceIP :: string
  se_CreatedAt :: instant

record RouteRule =
  rr_IMSI :: string
  rr_NextHopWireGuardIP :: string
  rr_SessionToken :: string

type_synonym SessionEventType = string

definition EventSessionCreated :: SessionEventType where "EventSessionCreated = ''session_created''"
definition EventSessionTerminated :: SessionEventType where "EventSessionTerminated = ''session_terminated''"

record SessionEvent =
  sv_Type :: SessionEventType
  sv_Session :: Session

section \<open>The adapter interface\<close>

text \<open>
  \<^verbatim>\<open>APNAdapter\<close> as the API uses it: operations on a state of its own.  The iteration order of
  \<^verbatim>\<open>ListSessions\<close> is an argument.  The channel that \<^verbatim>\<open>SessionEvents\<close> returns is modelled below,
  with the goroutines that serve it.
\<close>

record 'a APNAdapter =
  ad_SetRoute :: "RouteRule \<Rightarrow> 'a \<Rightarrow> 'a \<times> goerr option"
  ad_ClearRoute :: "string \<Rightarrow> 'a \<Rightarrow> 'a \<times> goerr option"
  ad_ListSessions :: "string list \<Rightarrow> 'a \<Rightarrow> goerr + Session list"

text \<open>The wrapper converts between the types of the two packages.\<close>

definition mock_rule :: "RouteRule \<Rightarrow> mockRouteRule" where
  "mock_rule rule = \<lparr>mrr_IMSI = rr_IMSI rule, mrr_NextHopWireGuardIP = rr_NextHopWireGuardIP rule,
     mrr_SessionToken = rr_SessionToken rule\<rparr>"

definition main_session :: "mockSession \<Rightarrow> Session" where
  "main_session s = \<lparr>se_IMSI = mse_IMSI s, se_GTPTEID = mse_GTPTEID s, se_DeviceIP = mse_DeviceIP s,
     se_CreatedAt = mse_CreatedAt s\<rparr>"

definition main_event :: "mockSessionEvent \<Rightarrow> SessionEvent" where
  "main_event e = \<lparr>sv_Type = msv_Type e, sv_Session = main_session (msv_Session e)\<rparr>"

definition mockAdapterWrapper :: "mockAdapter APNAdapter" where
  "mockAdapterWrapper =
     \<lparr>ad_SetRoute = (\<lambda>rule. mock_SetRoute (mock_rule rule)),
      ad_ClearRoute = mock_ClearRoute,
      ad_ListSessions = (\<lambda>ord a. case mock_ListSessions ord a of
         Inl e \<Rightarrow> Inl e
       | Inr ms \<Rightarrow> Inr (map main_session ms))\<rparr>"

section \<open>API\<close>

record apnRequest =
  nreq_Command :: string
  nreq_IMSI :: string
  nreq_NextHopWireGuardIP :: string
  nreq_SessionToken :: string

record apnResponse =
  nresp_Status :: string
  nresp_Command :: string
  nresp_Message :: string
  nresp_Sessions :: "Session list"

definition apn_resp0 :: apnResponse where
  "apn_resp0 = \<lparr>nresp_Status = [], nresp_Command = [], nresp_Message = [], nresp_Sessions = []\<rparr>"

definition cmdSetRoute :: string where "cmdSetRoute = ''set_route''"
definition cmdClearRoute :: string where "cmdClearRoute = ''clear_route''"
definition cmdListSessions :: string where "cmdListSessions = ''list_sessions''"

text \<open>The answer to a command that reports only an error.\<close>

definition apn_status :: "string \<Rightarrow> goerr option \<Rightarrow> apnResponse" where
  "apn_status cmd err =
     (case err of
        Some e \<Rightarrow> apn_resp0\<lparr>nresp_Status := ''error'', nresp_Command := cmd, nresp_Message := err_text e\<rparr>
      | None \<Rightarrow> apn_resp0\<lparr>nresp_Status := ''ok'', nresp_Command := cmd\<rparr>)"

definition handle_apn_line :: "'a APNAdapter \<Rightarrow> string list \<Rightarrow> goerr + apnRequest \<Rightarrow> 'a \<Rightarrow> 'a \<times> apnResponse" where
  "handle_apn_line ad ord line a =
     (case line of
        Inl e \<Rightarrow> (a, apn_resp0\<lparr>nresp_Status := ''error'', nresp_Message := ''invalid request''\<rparr>)
      | Inr req \<Rightarrow>
          if nreq_Command req = cmdSetRoute then
            (let (a', err) = ad_SetRoute ad \<lparr>rr_IMSI = nreq_IMSI req,
                   rr_NextHopWireGuardIP = nreq_NextHopWireGuardIP req, rr_SessionToken = nreq_SessionToken req\<rparr> a
             in (a', apn_status (nreq_Command req) err))
          else if nreq_Command req = cmdClearRoute then
            (let (a', err) = ad_ClearRoute ad (nreq_IMSI req) a in (a', apn_status (nreq_Command req) err))
          else if nreq_Command req = cmdListSessions then
            (case ad_ListSessions ad ord a of
               Inl e \<Rightarrow> (a, apn_status (nreq_Command req) (Some e))
             | Inr sessions \<Rightarrow> (a, apn_resp0\<lparr>nresp_Status := ''ok'', nresp_Command := nreq_Command req,
                                  nresp_Sessions := sessions\<rparr>))
          else (a, apn_resp0\<lparr>nresp_Status := ''error'', nresp_Command := nreq_Command req,
                 nresp_Message := ''unknown command''\<rparr>))"

fun handleConn_apn :: "'a APNAdapter \<Rightarrow> (string list \<times> (goerr + apnRequest)) list \<Rightarrow> 'a \<Rightarrow> 'a \<times> apnResponse list" where
  "handleConn_apn ad [] a = (a, [])"
| "handleConn_apn ad ((ord, line) # rest) a =
     (let (a1, resp) = handle_apn_line ad ord line a; (a2, resps) = handleConn_apn ad rest a1
      in (a2, resp # resps))"

section \<open>Configuration and start\<close>

record apnConfig =
  an_Adapter :: string

definition defaultAPNConfig :: apnConfig where
  "defaultAPNConfig = \<lparr>an_Adapter = ''mock''\<rparr>"

definition loadAPNConfig :: "(bytes \<Rightarrow> apnConfig \<Rightarrow> apnConfig \<times> goerr option) \<Rightarrow> read_result \<Rightarrow> goerr + apnConfig" where
  "loadAPNConfig unmarshal file =
     (case file of
        ReadNotExist e \<Rightarrow> Inr defaultAPNConfig
      | ReadError e \<Rightarrow> Inl e
      | ReadOK data \<Rightarrow>
          (case unmarshal data defaultAPNConfig of
             (cfg, Some e) \<Rightarrow> Inl e
           | (cfg, None) \<Rightarrow> Inr cfg))"

text \<open>The adapter \<^verbatim>\<open>main\<close> starts with; all names but \<^verbatim>\<open>mock\<close> end the program.\<close>

definition select_adapter :: "apnConfig \<Rightarrow> (mockAdapter APNAdapter \<times> mockAdapter) option" where
  "select_adapter cfg =
     (if an_Adapter cfg = ''mock'' then Some (mockAdapterWrapper, mock_New)
      else if an_Adapter cfg = ''open5gs'' then None
      else if an_Adapter cfg = ''free5gc'' then None
      else None)"

text \<open>This program does not create the directory of its socket.\<close>

definition apn_listen :: "listen_env \<Rightarrow> 'a \<Rightarrow> goerr + ('a, apnResponse) server" where
  "apn_listen os a = (case le_listen os of Some e \<Rightarrow> Inl e | None \<Rightarrow> Inr (serving a))"

definition apn_main :: "(bytes \<Rightarrow> apnConfig \<Rightarrow> apnConfig \<times> goerr option) \<Rightarrow> read_result \<Rightarrow> listen_env
    \<Rightarrow> (mockAdapter APNAdapter \<times> (mockAdapter, apnResponse) server) process" where
  "apn_main unmarshal file os =
     (case loadAPNConfig unmarshal file of
        Inl e \<Rightarrow> Exit 1
      | Inr cfg \<Rightarrow>
          (case select_adapter cfg of
             None \<Rightarrow> Exit 1
           | Some (ad, a) \<Rightarrow>
               (case apn_listen os a of
                  Inl e \<Rightarrow> Exit 1
                | Inr srv \<Rightarrow> Serving (ad, srv))))"

text \<open>The goroutine of a connection handles a line, with the iteration order of the moment.\<close>

definition apn_handler :: "'a APNAdapter \<Rightarrow> (bytes \<Rightarrow> goerr + apnRequest) \<Rightarrow> string list \<Rightarrow> bytes \<Rightarrow> 'a \<Rightarrow> ('a \<times> apnResponse) go" where
  "apn_handler ad unmarshal ord line a = Ret (handle_apn_line ad ord (unmarshal line) a)"

definition apn_started :: "mockAdapter APNAdapter \<Rightarrow> (mockAdapter, apnResponse) server \<Rightarrow> bool" where
  "apn_started ad s \<longleftrightarrow> (\<exists>unmarshal file os. apn_main unmarshal file os = Serving (ad, s))"

section \<open>What the API promises of every adapter\<close>

text \<open>
  The contract of an adapter, over a view of its routes: setting and clearing succeed and
  change one device's route, sessions are not affected, and listing succeeds.
\<close>

locale apn_adapter =
  fixes ad :: "'a APNAdapter" and route :: "'a \<Rightarrow> string \<Rightarrow> RouteRule option"
    and session :: "'a \<Rightarrow> string \<Rightarrow> Session option" and sess_order :: "'a \<Rightarrow> string list \<Rightarrow> bool"
  assumes set_route: "ad_SetRoute ad rule a = (a', err) \<Longrightarrow>
      err = None \<and> route a' = (route a)(rr_IMSI rule \<mapsto> rule) \<and> session a' = session a"
    and clear_route: "ad_ClearRoute ad imsi a = (a', err) \<Longrightarrow>
      err = None \<and> route a' = (route a)(imsi := None) \<and> session a' = session a"
    and list_sessions: "sess_order a ord \<Longrightarrow>
      \<exists>ss. ad_ListSessions ad ord a = Inr ss \<and> set ss = {s. \<exists>i. session a i = Some s}"
begin

lemma line_set_route:
  assumes "handle_apn_line ad ord (Inr \<lparr>nreq_Command = cmdSetRoute, nreq_IMSI = i, nreq_NextHopWireGuardIP = n,
    nreq_SessionToken = t\<rparr>) a = (a', resp)"
  shows "nresp_Status resp = ''ok''"
    and "route a' = (route a)(i \<mapsto> \<lparr>rr_IMSI = i, rr_NextHopWireGuardIP = n, rr_SessionToken = t\<rparr>)"
    and "session a' = session a"
proof -
  let ?rule = "\<lparr>rr_IMSI = i, rr_NextHopWireGuardIP = n, rr_SessionToken = t\<rparr>"
  obtain a1 err where s: "ad_SetRoute ad ?rule a = (a1, err)" by (cases "ad_SetRoute ad ?rule a")
  note c = set_route [OF s]
  then have "a' = a1" "resp = apn_status cmdSetRoute None"
    using assms s by (simp_all add: handle_apn_line_def)
  with c show "nresp_Status resp = ''ok''" "route a' = (route a)(i \<mapsto> ?rule)" "session a' = session a"
    by (simp_all add: apn_status_def)
qed

lemma line_clear_route:
  assumes "handle_apn_line ad ord (Inr \<lparr>nreq_Command = cmdClearRoute, nreq_IMSI = i, nreq_NextHopWireGuardIP = n,
    nreq_SessionToken = t\<rparr>) a = (a', resp)"
  shows "nresp_Status resp = ''ok''" and "route a' = (route a)(i := None)" and "session a' = session a"
proof -
  obtain a1 err where s: "ad_ClearRoute ad i a = (a1, err)" by (cases "ad_ClearRoute ad i a")
  note c = clear_route [OF s]
  then have "a' = a1" "resp = apn_status cmdClearRoute None"
    using assms s by (simp_all add: handle_apn_line_def cmdClearRoute_def cmdSetRoute_def)
  with c show "nresp_Status resp = ''ok''" "route a' = (route a)(i := None)" "session a' = session a"
    by (simp_all add: apn_status_def)
qed

text \<open>Setting a route for a device without one and clearing it restores the routes.\<close>

lemma set_clear:
  assumes "route a i = None"
    and "handle_apn_line ad ord (Inr \<lparr>nreq_Command = cmdSetRoute, nreq_IMSI = i, nreq_NextHopWireGuardIP = n,
      nreq_SessionToken = t\<rparr>) a = (a1, r1)"
    and "handle_apn_line ad ord (Inr \<lparr>nreq_Command = cmdClearRoute, nreq_IMSI = i, nreq_NextHopWireGuardIP = n',
      nreq_SessionToken = t'\<rparr>) a1 = (a2, r2)"
  shows "route a2 = route a" and "session a2 = session a"
  using line_set_route [OF assms(2)] line_clear_route [OF assms(3)] assms(1) by auto

end

text \<open>The wrapped adapter keeps the contract, over the routes and sessions as the main package sees them.\<close>

definition main_rule :: "mockRouteRule \<Rightarrow> RouteRule" where
  "main_rule rule = \<lparr>rr_IMSI = mrr_IMSI rule, rr_NextHopWireGuardIP = mrr_NextHopWireGuardIP rule,
     rr_SessionToken = mrr_SessionToken rule\<rparr>"

lemma main_rule_mock [simp]: "main_rule (mock_rule r) = r" "mock_rule (main_rule m) = m"
  by (simp_all add: main_rule_def mock_rule_def)

lemma inj_main_rule: "inj main_rule"
  by (rule inj_on_inverseI [of _ mock_rule]) simp

lemma inj_main_session: "inj main_session"
  by (rule injI) (simp add: main_session_def)

interpretation mock: apn_adapter mockAdapterWrapper "\<lambda>a i. map_option main_rule (mget (ma_routes a) i)"
  "\<lambda>a i. map_option main_session (mget (ma_sessions a) i)" "\<lambda>a ord. range_order (ma_sessions a) ord \<and> mwf (ma_sessions a)"
proof
  fix a :: mockAdapter and ord
  assume o: "range_order (ma_sessions a) ord \<and> mwf (ma_sessions a)"
  then have "set (range_vals (ma_sessions a) ord) = {s. \<exists>i. mget (ma_sessions a) i = Some s}"
    using set_range_vals [of "ma_sessions a" ord] by auto
  then show "\<exists>ss. ad_ListSessions mockAdapterWrapper ord a = Inr ss
      \<and> set ss = {s. \<exists>i. map_option main_session (mget (ma_sessions a) i) = Some s}"
    by (auto simp: mockAdapterWrapper_def mock_ListSessions_def)
qed (auto simp: mockAdapterWrapper_def mock_SetRoute_def mock_ClearRoute_def fun_eq_iff mock_rule_def main_rule_def)

section \<open>The running program\<close>

lemma apn_main_Serving:
  "apn_main unmarshal file os = Serving (ad, s) \<longleftrightarrow>
     (\<exists>cfg. loadAPNConfig unmarshal file = Inr cfg \<and> an_Adapter cfg = ''mock'' \<and> le_listen os = None
        \<and> ad = mockAdapterWrapper \<and> s = serving mock_New)"
  by (cases "loadAPNConfig unmarshal file"; cases "le_listen os")
    (auto simp: apn_main_def apn_listen_def select_adapter_def)

lemma distinct_range_vals:
  assumes "range_order m ord" and "\<And>i j s t. mget m i = Some s \<Longrightarrow> mget m j = Some t \<Longrightarrow> f s = f t \<Longrightarrow> i = j"
  shows "distinct (map f (range_vals m ord))"
proof -
  let ?ord = "filter (\<lambda>i. mget m i \<noteq> None) ord"
  have "range_vals m ord = map (\<lambda>i. the (mget m i)) ?ord"
    by (induction ord) (auto simp: range_vals_def List.map_filter_def)
  moreover have "inj_on (\<lambda>i. f (the (mget m i))) (set ?ord)"
  proof (rule inj_onI)
    fix i j assume "i \<in> set ?ord" "j \<in> set ?ord" and eq: "f (the (mget m i)) = f (the (mget m j))"
    then obtain s t where st: "mget m i = Some s" "mget m j = Some t" by auto
    have "f s = f t" using eq unfolding st by simp
    then show "i = j" by (rule assms(2) [OF st])
  qed
  ultimately show ?thesis using assms(1) by (simp add: distinct_map comp_def range_order_def)
qed

text \<open>An answer to \<^verbatim>\<open>list_sessions\<close> names no device and no address twice.\<close>

definition apn_answer :: "(bytes \<Rightarrow> goerr + apnRequest) \<Rightarrow> bytes \<Rightarrow> apnResponse \<Rightarrow> bool" where
  "apn_answer unmarshal l r \<longleftrightarrow> (\<forall>req. unmarshal l = Inr req \<longrightarrow> nreq_Command req = cmdListSessions \<longrightarrow>
     nresp_Status r = ''ok'' \<and> distinct (map se_IMSI (nresp_Sessions r)) \<and> distinct (map se_DeviceIP (nresp_Sessions r)))"

lemma handle_apn_line_mock:
  assumes "mock_inv a" and "range_order (ma_sessions a) ord" and "handle_apn_line mockAdapterWrapper ord (unmarshal l) a = (b, r)"
  shows "mock_inv b \<and> apn_answer unmarshal l r"
proof (cases "unmarshal l")
  case (Inl e)
  then show ?thesis using assms(1,3) by (simp add: handle_apn_line_def apn_answer_def)
next
  case (Inr req)
  have "distinct (map (se_IMSI \<circ> main_session) (range_vals (ma_sessions a) ord))"
    "distinct (map (se_DeviceIP \<circ> main_session) (range_vals (ma_sessions a) ord))"
    using mock_inv_distinct(1,2) [OF assms(1)]
    by (auto intro!: distinct_range_vals [OF assms(2)] simp: main_session_def)
  then show ?thesis
    using assms(1,3) Inr
    by (auto simp: handle_apn_line_def apn_answer_def mockAdapterWrapper_def mock_SetRoute_def mock_ClearRoute_def
        mock_ListSessions_def mock_inv_routes cmdListSessions_def cmdSetRoute_def cmdClearRoute_def split: if_splits)
qed

interpretation apncore: line_server "apn_started ad" "\<lambda>ord a. range_order (ma_sessions a) ord" "apn_handler mockAdapterWrapper unmarshal"
  device_step "\<lambda>l. True" mock_inv "apn_answer unmarshal" for ad unmarshal
proof
  fix s assume "apn_started ad s"
  then show "sv_conns s = [] \<and> mock_inv (sv_state s)"
    by (auto simp: apn_started_def apn_main_Serving serving_def mock_inv_New)
next
  fix a ord l b r
  assume "mock_inv a" "range_order (ma_sessions a) ord" "apn_handler mockAdapterWrapper unmarshal ord l a = Ret (b, r)"
  then show "mock_inv b \<and> apn_answer unmarshal l r" by (intro handle_apn_line_mock) (simp_all add: apn_handler_def)
qed (rule mock_inv_device)

section \<open>Delivery of events\<close>

text \<open>
  An event takes three steps: a goroutine of the wrapper receives it from the adapter's channel,
  converts it and sends it to a second channel of the same capacity, holding it while that
  channel is full; the goroutine of the API receives it there and logs it.  \<open>pp_sent\<close> is the
  history of all events that entered the first channel, \<open>pp_logged\<close> of those that were logged.
\<close>

record event_pipe =
  pp_adapter :: mockAdapter
  pp_held :: "SessionEvent option"
  pp_out :: "SessionEvent list"
  pp_sent :: "mockSessionEvent list"
  pp_logged :: "SessionEvent list"

definition relay_receive :: "event_pipe \<Rightarrow> event_pipe option" where
  "relay_receive p =
     (case (pp_held p, take_event (pp_adapter p)) of
        (None, Some (ev, a)) \<Rightarrow> Some (p\<lparr>pp_adapter := a, pp_held := Some (main_event ev)\<rparr>)
      | _ \<Rightarrow> None)"

definition relay_send :: "event_pipe \<Rightarrow> event_pipe option" where
  "relay_send p =
     (case pp_held p of
        Some ev \<Rightarrow> if length (pp_out p) < eventCapacity
                   then Some (p\<lparr>pp_held := None, pp_out := pp_out p @ [ev]\<rparr>) else None
      | None \<Rightarrow> None)"

definition forward_event :: "event_pipe \<Rightarrow> event_pipe option" where
  "forward_event p =
     (case pp_out p of
        [] \<Rightarrow> None
      | ev # evs \<Rightarrow> Some (p\<lparr>pp_out := evs, pp_logged := pp_logged p @ [ev]\<rparr>))"

text \<open>The goroutines together; the adapter may do anything else to its state in between.\<close>

inductive pipe_step :: "event_pipe \<Rightarrow> event_pipe \<Rightarrow> bool" where
  send: "send_event ev (pp_adapter p) = Some a \<Longrightarrow>
     pipe_step p (p\<lparr>pp_adapter := a, pp_sent := pp_sent p @ [ev]\<rparr>)"
| adapter: "ma_events a = ma_events (pp_adapter p) \<Longrightarrow> pipe_step p (p\<lparr>pp_adapter := a\<rparr>)"
| receive: "relay_receive p = Some p' \<Longrightarrow> pipe_step p p'"
| relay: "relay_send p = Some p' \<Longrightarrow> pipe_step p p'"
| forward: "forward_event p = Some p' \<Longrightarrow> pipe_step p p'"

definition pipe_init :: "event_pipe \<Rightarrow> bool" where
  "pipe_init p \<longleftrightarrow> p = \<lparr>pp_adapter = mock_New, pp_held = None, pp_out = [], pp_sent = [], pp_logged = []\<rparr>"

text \<open>Where the events are, oldest first.\<close>

definition in_transit :: "event_pipe \<Rightarrow> SessionEvent list" where
  "in_transit p = pp_out p @ (case pp_held p of None \<Rightarrow> [] | Some ev \<Rightarrow> [ev]) @ map main_event (ma_events (pp_adapter p))"

interpretation pipe: invariant_system pipe_init pipe_step
  "\<lambda>p. map main_event (pp_sent p) = pp_logged p @ in_transit p \<and> length (pp_out p) \<le> eventCapacity"
proof
  fix p q assume p: "map main_event (pp_sent p) = pp_logged p @ in_transit p \<and> length (pp_out p) \<le> eventCapacity" and "pipe_step p q"
  from this(2) show "map main_event (pp_sent q) = pp_logged q @ in_transit q \<and> length (pp_out q) \<le> eventCapacity"
  proof cases
    case receive
    with p show ?thesis
      by (auto simp: relay_receive_def take_event_def in_transit_def split: option.splits prod.splits list.splits)
  qed (use p in \<open>auto simp: send_event_def relay_send_def forward_event_def in_transit_def
        split: if_splits option.splits list.splits\<close>)
qed (simp add: pipe_init_def in_transit_def mock_New_def)

text \<open>As long as an event is in transit, one of the two goroutines can move one.\<close>

lemma pipe_progress:
  assumes "length (pp_out p) \<le> eventCapacity"
  shows "in_transit p \<noteq> [] \<longleftrightarrow> relay_receive p \<noteq> None \<or> relay_send p \<noteq> None \<or> forward_event p \<noteq> None"
  using assms by (cases "pp_out p"; cases "pp_held p"; cases "ma_events (pp_adapter p)")
    (simp_all add: in_transit_def relay_receive_def relay_send_def forward_event_def take_event_def eventCapacity_def)

text \<open>Every move brings the events closer to the log.\<close>

definition pipe_distance :: "event_pipe \<Rightarrow> nat" where
  "pipe_distance p = 3 * length (ma_events (pp_adapter p)) + (if pp_held p = None then 0 else 2) + length (pp_out p)"

lemma pipe_distance_decreases:
  assumes "relay_receive p = Some q \<or> relay_send p = Some q \<or> forward_event p = Some q"
  shows "pipe_distance q < pipe_distance p \<and> pp_sent q = pp_sent p"
  using assms by (auto simp: pipe_distance_def relay_receive_def relay_send_def forward_event_def take_event_def
      split: option.splits prod.splits list.splits if_splits)

section \<open>Properties\<close>

text \<open>C34. The running packet core, from the start of \<^verbatim>\<open>main\<close> on, with any number of API clients and with
  fewer than \<open>2 ^ 63\<close> devices that connect and disconnect: sessions are filed under their own IMSI
  and no two have the same device address; below \<open>2 ^ 32\<close> connections no two have the same tunnel
  identifier; the event channel never holds more than 64 events.  On each connection the answers
  belong to the lines read so far, one for one and in order, and every answer to \<^verbatim>\<open>list_sessions\<close>
  names no device and no address twice.\<close>

theorem sessions_distinct:
  assumes "reachable (apn_started ad) (server_step (\<lambda>ord a. range_order (ma_sessions a) ord)
      (apn_handler mockAdapterWrapper unmarshal) device_step (\<lambda>l. True)) s"
  defines "a \<equiv> sv_state s"
  shows "(\<forall>i j s t. mget (ma_sessions a) i = Some s \<and> mget (ma_sessions a) j = Some t \<longrightarrow>
       mse_IMSI s = i \<and> (mse_DeviceIP s = mse_DeviceIP t \<longrightarrow> i = j)
     \<and> (ma_ipSeq a < 2 ^ 32 \<and> mse_GTPTEID s = mse_GTPTEID t \<longrightarrow> i = j))
   \<and> length (ma_events a) \<le> 64
   \<and> (\<forall>c \<in> set (sv_conns s). list_all2 (apn_answer unmarshal) (co_read c) (co_answers c)
        \<and> (\<exists>data. scan_lines data = co_read c @ co_unread c))"
proof -
  have inv: "mock_inv a" and c: "\<And>c. c \<in> set (sv_conns s) \<Longrightarrow> conn_ok (\<lambda>l. True) (apn_answer unmarshal) c"
    using apncore.srv.reachable_inv [OF assms(1)] by (auto simp: a_def list_all_iff)
  have "length (ma_events a) \<le> 64" using inv by (simp add: mock_inv_def eventCapacity_def)
  then show ?thesis using mock_inv_distinct [OF inv] c unfolding conn_ok_def by blast
qed

text \<open>A device connects, and a client asks for the sessions.\<close>

definition ex_list :: "bytes \<Rightarrow> goerr + apnRequest" where
  "ex_list l = Inr \<lparr>nreq_Command = cmdListSessions, nreq_IMSI = [], nreq_NextHopWireGuardIP = [], nreq_SessionToken = []\<rparr>"

theorem sessions_distinct_witness:
  "\<exists>s resp. reachable (apn_started mockAdapterWrapper) (server_step (\<lambda>ord a. range_order (ma_sessions a) ord)
      (apn_handler mockAdapterWrapper ex_list) device_step (\<lambda>l. True)) s
    \<and> map co_answers (sv_conns s) = [[resp]] \<and> apn_answer ex_list [65] resp
    \<and> nresp_Sessions resp = [\<lparr>se_IMSI = ''1'', se_GTPTEID = 1, se_DeviceIP = device_ip 1, se_CreatedAt = 7\<rparr>]"
proof -
  let ?step = "server_step (\<lambda>ord a. range_order (ma_sessions a) ord) (apn_handler mockAdapterWrapper ex_list) device_step (\<lambda>l. True)"
  let ?a = "fst (connect_locked ''1'' 7 mock_New)"
  have a: "ma_sessions ?a = [(''1'', \<lparr>mse_IMSI = ''1'', mse_GTPTEID = 1, mse_DeviceIP = device_ip 1, mse_CreatedAt = 7\<rparr>)]"
    by (simp add: connect_locked_def mock_New_def Let_def in_int64_def)
  have "apn_main (\<lambda>data cfg. (cfg, None)) (ReadOK []) \<lparr>le_mkdir = None, le_listen = None\<rparr> = Serving (mockAdapterWrapper, serving mock_New)"
    by (simp add: apn_main_Serving loadAPNConfig_def defaultAPNConfig_def)
  then have r0: "reachable (apn_started mockAdapterWrapper) ?step (serving mock_New)"
    by (intro reach_init) (auto simp: apn_started_def)
  have "device_step (sv_state (serving mock_New)) ?a"
    using device_step.connect [of mock_New "''1''" 7] by (simp add: serving_def mock_New_def)
  then have r1: "reachable (apn_started mockAdapterWrapper) ?step ((serving mock_New)\<lparr>sv_state := ?a\<rparr>)"
    by (rule reach_step [OF r0 server_step.background])
  obtain resp where h: "apn_handler mockAdapterWrapper ex_list [''1''] [65] ?a = Ret (?a, resp)"
    and resp: "nresp_Sessions resp = [\<lparr>se_IMSI = ''1'', se_GTPTEID = 1, se_DeviceIP = device_ip 1, se_CreatedAt = 7\<rparr>]"
    by (simp add: apn_handler_def ex_list_def handle_apn_line_def cmdListSessions_def cmdSetRoute_def cmdClearRoute_def
        mockAdapterWrapper_def mock_ListSessions_def a range_vals_def main_session_def)
  obtain s where s: "reachable (apn_started mockAdapterWrapper) ?step s"
    "sv_conns s = [\<lparr>co_read = [[65]], co_unread = [], co_answers = [resp]\<rparr>]"
    using one_line_served [OF r1, of "[''1'']" ?a resp] h by (auto simp: serving_def a range_order_def)
  have "apn_answer ex_list [65] resp" using sessions_distinct [OF s(1)] s(2) by simp
  then show ?thesis using s resp by (intro exI [of _ s] exI [of _ resp]) simp
qed

text \<open>Starting the packet core: \<^verbatim>\<open>main\<close> serves, with the in-memory adapter and no sessions, when the
  configuration can be read and names that adapter and the socket can be opened, and ends with
  status 1 in all other cases; the documented adapters for real packet cores are among them.\<close>

theorem apn_main_outcome:
  "apn_main unmarshal file os =
     (case loadAPNConfig unmarshal file of
        Inl e \<Rightarrow> Exit 1
      | Inr cfg \<Rightarrow> if an_Adapter cfg = ''mock'' \<and> le_listen os = None
                   then Serving (mockAdapterWrapper, \<lparr>sv_state = mock_New, sv_conns = []\<rparr>) else Exit 1)"
  by (simp add: apn_main_def apn_listen_def select_adapter_def serving_def split: sum.split option.split)

text \<open>C36. Through the API, with the adapter that \<^verbatim>\<open>main\<close> selects: setting a route for a device that has
  none succeeds, and clearing it afterwards succeeds and restores all routes; sessions are
  untouched.\<close>

theorem route_set_clear:
  assumes "select_adapter cfg = Some (ad, a0)" and "mget (ma_routes a) i = None"
    and "handle_apn_line ad ord (Inr \<lparr>nreq_Command = cmdSetRoute, nreq_IMSI = i, nreq_NextHopWireGuardIP = n,
      nreq_SessionToken = t\<rparr>) a = (a1, r1)"
    and "handle_apn_line ad ord (Inr \<lparr>nreq_Command = cmdClearRoute, nreq_IMSI = i, nreq_NextHopWireGuardIP = n',
      nreq_SessionToken = t'\<rparr>) a1 = (a2, r2)"
  shows "nresp_Status r1 = ''ok'' \<and> nresp_Status r2 = ''ok''
    \<and> mget (ma_routes a1) i = Some \<lparr>mrr_IMSI = i, mrr_NextHopWireGuardIP = n, mrr_SessionToken = t\<rparr>
    \<and> (\<forall>k. mget (ma_routes a2) k = mget (ma_routes a) k) \<and> (\<forall>k. mget (ma_sessions a2) k = mget (ma_sessions a) k)"
proof -
  have ad: "ad = mockAdapterWrapper" using assms(1) by (simp add: select_adapter_def split: if_splits)
  note l = assms(3,4) [unfolded ad]
  have none: "map_option main_rule (mget (ma_routes a) i) = None" using assms(2) by simp
  have inj: "map_option main_rule x = map_option main_rule y \<longleftrightarrow> x = y" for x y
    using option.inj_map [OF inj_main_rule] by (simp add: inj_eq)
  have injs: "map_option main_session x = map_option main_session y \<longleftrightarrow> x = y" for x y
    using option.inj_map [OF inj_main_session] by (simp add: inj_eq)
  let ?rule = "\<lparr>rr_IMSI = i, rr_NextHopWireGuardIP = n, rr_SessionToken = t\<rparr>"
  have "map_option main_rule (mget (ma_routes a1) i) = map_option main_rule (Some (mock_rule ?rule))"
    using fun_cong [OF mock.line_set_route(2) [OF l(1)], of i] by simp
  then have "mget (ma_routes a1) i = Some (mock_rule ?rule)" unfolding inj .
  moreover have "mget (ma_routes a2) k = mget (ma_routes a) k" "mget (ma_sessions a2) k = mget (ma_sessions a) k" for k
    using fun_cong [OF mock.set_clear(1) [OF none l], of k] fun_cong [OF mock.set_clear(2) [OF none l], of k]
    unfolding inj injs by simp_all
  ultimately show ?thesis
    using mock.line_set_route(1) [OF l(1)] mock.line_clear_route(1) [OF l(2)] by (simp add: mock_rule_def)
qed

theorem route_set_clear_witness:
  "\<exists>a1 r1 a2 r2. handle_apn_line mockAdapterWrapper [] (Inr \<lparr>nreq_Command = cmdSetRoute, nreq_IMSI = ''1'',
      nreq_NextHopWireGuardIP = ''10.9.0.2'', nreq_SessionToken = ''t''\<rparr>) mock_New = (a1, r1)
    \<and> handle_apn_line mockAdapterWrapper [] (Inr \<lparr>nreq_Command = cmdClearRoute, nreq_IMSI = ''1'',
      nreq_NextHopWireGuardIP = [], nreq_SessionToken = []\<rparr>) a1 = (a2, r2)
    \<and> nresp_Status r1 = ''ok'' \<and> nresp_Status r2 = ''ok''
    \<and> map_option mrr_NextHopWireGuardIP (mget (ma_routes a1) ''1'') = Some ''10.9.0.2'' \<and> mget (ma_routes a2) ''1'' = None"
proof -
  let ?l1 = "Inr \<lparr>nreq_Command = cmdSetRoute, nreq_IMSI = ''1'', nreq_NextHopWireGuardIP = ''10.9.0.2'', nreq_SessionToken = ''t''\<rparr>"
  let ?l2 = "Inr \<lparr>nreq_Command = cmdClearRoute, nreq_IMSI = ''1'', nreq_NextHopWireGuardIP = [], nreq_SessionToken = []\<rparr>"
  obtain a1 r1 where 1: "handle_apn_line mockAdapterWrapper [] ?l1 mock_New = (a1, r1)" by fastforce
  obtain a2 r2 where 2: "handle_apn_line mockAdapterWrapper [] ?l2 a1 = (a2, r2)" by fastforce
  have sel: "select_adapter defaultAPNConfig = Some (mockAdapterWrapper, mock_New)" by (simp add: select_adapter_def defaultAPNConfig_def)
  have none: "mget (ma_routes mock_New) ''1'' = None" by (simp add: mock_New_def)
  show ?thesis using route_set_clear [OF sel none 1 2] 1 2 none by auto
qed

text \<open>C35. Events are delivered in order and none is lost or repeated: in every interleaving of the two
  goroutines and the adapter, the events sent so far, converted, are those logged followed by
  those still on the way.  While some are on the way one of the goroutines can move, and each move brings
  them closer to the log, so that no combination of full channels blocks for ever.\<close>

theorem events_in_order:
  assumes "reachable pipe_init pipe_step p"
  shows "map main_event (pp_sent p) = pp_logged p @ in_transit p
    \<and> (pp_logged p \<noteq> map main_event (pp_sent p) \<longleftrightarrow> (\<exists>q. relay_receive p = Some q \<or> relay_send p = Some q \<or> forward_event p = Some q))
    \<and> (\<forall>q. relay_receive p = Some q \<or> relay_send p = Some q \<or> forward_event p = Some q \<longrightarrow>
         pipe_distance q < pipe_distance p \<and> pp_sent q = pp_sent p)"
proof -
  have inv: "map main_event (pp_sent p) = pp_logged p @ in_transit p" "length (pp_out p) \<le> eventCapacity"
    using pipe.reachable_inv [OF assms] by simp_all
  show ?thesis
    using inv(1) pipe_progress [OF inv(2)] pipe_distance_decreases [of p] by auto
qed

definition ex_event :: mockSessionEvent where
  "ex_event = \<lparr>msv_Type = mock_EventSessionCreated, msv_Session = \<lparr>mse_IMSI = ''1'', mse_GTPTEID = 1, mse_DeviceIP = [], mse_CreatedAt = 0\<rparr>\<rparr>"

definition ex_pipe :: event_pipe where
  "ex_pipe = \<lparr>pp_adapter = mock_New\<lparr>ma_events := [ex_event]\<rparr>, pp_held = None, pp_out = [], pp_sent = [ex_event], pp_logged = []\<rparr>"

theorem events_in_order_witness:
  "\<exists>q. relay_receive ex_pipe = Some q \<and> pipe_distance q < pipe_distance ex_pipe"
proof -
  let ?p0 = "\<lparr>pp_adapter = mock_New, pp_held = None, pp_out = [], pp_sent = [], pp_logged = []\<rparr>"
  have "reachable pipe_init pipe_step ?p0" by (rule reach_init) (simp add: pipe_init_def)
  moreover have "pipe_step ?p0 ex_pipe"
    using pipe_step.send [of ex_event ?p0 "mock_New\<lparr>ma_events := [ex_event]\<rparr>"]
    by (simp add: send_event_def mock_New_def eventCapacity_def ex_pipe_def)
  ultimately have r: "reachable pipe_init pipe_step ex_pipe" by (rule reach_step)
  obtain q where "relay_receive ex_pipe = Some q"
    by (simp add: relay_receive_def take_event_def ex_pipe_def)
  with events_in_order [OF r] show ?thesis by blast
qed

end
