(* ===== verification/Spec2Isabelle.thy ===== *)
theory Spec2Isabelle
  imports Circuit_Rotation Sim_Service Gossip_Process Gossip_Flood Wireguard_Manager Apn_Core
begin

text \<open>
  CAMO is a set of five Go programs that run on a distribution server of a mobile onion routing
  network.  This development models them and proves what makes them correct.

  \<^bold>\<open>The programs and how they interact.\<close>
  \<^item> \<^verbatim>\<open>camo-gossip\<close> keeps a store of signed node records, learns records and heartbeats from other
    nodes over TCP, forwards what is new, and answers queries on a Unix socket.
  \<^item> \<^verbatim>\<open>camo-circuit\<close> asks the gossip agent for its identity and for the active nodes, builds circuits
    of three to five hops, rotates them every ten minutes, and sends commands to
    \<^verbatim>\<open>camo-wireguard\<close>.
  \<^item> \<^verbatim>\<open>camo-wireguard\<close> configures the peers of a WireGuard interface on behalf of the controller.
  \<^item> \<^verbatim>\<open>camo-simpool\<close> hands out SIM cards to sessions, rotates the active subset and checks that the
    cards are alive.
  \<^item> \<^verbatim>\<open>camo-apncore\<close> is the adapter to the packet core: sessions of devices and routes for them.
  The controller's configuration also names the sockets of the SIM pool and of the APN core, but
  no code connects to them.

  \<^bold>\<open>Theories.\<close>
  \<^item> \<open>Prelude\<close>: errors as values, panics (\<^typ>\<open>'a go\<close>), time and durations at 64 bits, Go maps as
    association lists with an explicit iteration order, the random source, reachability of step
    relations and the locale \<open>invariant_system\<close> that the state machines below interpret.
  \<^item> \<open>GoFloat\<close>, \<open>GoText\<close>, \<open>GoTime\<close>, \<open>GoNet\<close>, \<open>Base64\<close>, \<open>Weak_Order\<close>: the parts of the Go library that the
    programs use: binary64 arithmetic, decimal printing, RFC 3339 formatting, IP and CIDR parsing,
    base64 with its round trip, and stable sorting for a strict weak order.
  \<^item> \<open>GoConn\<close>: what all programs do around their handlers: \<^verbatim>\<open>bufio.Scanner\<close> on a connection, a server
    with concurrent connections (\<open>server_step\<close>), how \<^verbatim>\<open>main\<close> ends or serves, and the locale \<open>line_server\<close>,
    which every socket interprets: a state invariant, and that each line is answered in order.
  \<^item> \<open>Circuit_Store\<close> (\<^verbatim>\<open>camo-circuit/circuit.go\<close>), \<open>Circuit_Constructor\<close> (\<^verbatim>\<open>constructor.go\<close>, and
    \<^verbatim>\<open>randomInt\<close> of \<^verbatim>\<open>main.go\<close>), \<open>Circuit_Rotation\<close> (\<^verbatim>\<open>main.go\<close>).
  \<^item> \<open>Sim_Pool\<close> (\<^verbatim>\<open>camo-simpool/sim.go\<close>, \<^verbatim>\<open>pool.go\<close>), \<open>Sim_Rotation\<close> (\<^verbatim>\<open>rotation.go\<close>), \<open>Sim_Liveness\<close>
    (\<^verbatim>\<open>liveness.go\<close>), \<open>Sim_Service\<close> (\<^verbatim>\<open>api.go\<close>, \<^verbatim>\<open>main.go\<close>).
  \<^item> \<open>Gossip_Record\<close> (\<^verbatim>\<open>camo-gossip/keys.go\<close>, \<^verbatim>\<open>record.go\<close>), \<open>Gossip_Store\<close> (\<^verbatim>\<open>store.go\<close>, \<^verbatim>\<open>peer.go\<close>),
    \<open>Gossip_Node\<close> (\<^verbatim>\<open>server.go\<close>, \<^verbatim>\<open>heartbeat.go\<close>, \<^verbatim>\<open>api.go\<close>, \<^verbatim>\<open>config.go\<close>, \<^verbatim>\<open>main.go\<close>), \<open>Gossip_Invariant\<close>
    (what holds in every reachable state of the agent), \<open>Gossip_Network\<close> (several agents and an
    adversary between them), \<open>Gossip_Flood\<close> (how records spread there), \<open>Gossip_Process\<close> (\<^verbatim>\<open>main.go\<close>, the listeners, and messages as bytes).
  \<^item> \<open>Wireguard_Manager\<close> (\<^verbatim>\<open>camo-wireguard/main.go\<close>), \<open>Apn_Mock\<close> (\<^verbatim>\<open>camo-apncore/mock/mock.go\<close>), \<open>Apn_Core\<close>
    (the rest of \<^verbatim>\<open>camo-apncore\<close>).
  \<^item> This theory connects the controller with the WireGuard manager and with the gossip agent.

  \<^bold>\<open>How code becomes definitions.\<close>  A struct is a record with a field prefix, a method is a
  function that takes the object last and returns it updated, an error result is \<open>Inl\<close> or
  \<open>Some\<close> of an error value, a panic is \<open>Panic\<close>.  Integers are mathematical integers where they
  cannot overflow, and words where they can: \<^verbatim>\<open>randomInt\<close> has the width of \<^verbatim>\<open>int\<close> as its type.
  Floating-point scores and targets are computed in binary64 with rounding to even.  A \<^verbatim>\<open>range\<close>
  over a map takes the order of its keys as an argument and the theorems hold for every
  order.  Every draw from the random source is explicit and numbered.  Pointers matter
  only in the gossip agent, where the node's own record is changed in place while the store
  points to it; records there live in a heap.  Code under a mutex is one function; goroutines,
  tickers and connections are the rules of step relations (\<open>controller_step\<close>, \<open>sim_background\<close>,
  \<open>gossip_step\<close>, \<open>device_step\<close>, \<open>pipe_step\<close>, \<open>server_step\<close>, \<open>network_step\<close>, \<open>flood_step\<close>), so that every interleaving of critical sections is covered.
  All loops terminate and are total functions; no fuel is used.

  \<^bold>\<open>Parameters.\<close>  JSON coding (\<open>codec\<close> and the \<open>unmarshal\<close> arguments), Ed25519 (\<open>ed25519\<close>, with the
  documented panics for keys of the wrong length; \<open>ed25519_ok\<close> states that signatures verify, \<open>unforged\<close>
  that an adversary cannot sign for members; \<open>coding_ok\<close> and \<open>codec_exact\<close>: JSON distinguishes records and
  reads back the records it wrote and messages that carry them), the
  package \<^verbatim>\<open>wgctrl\<close> and the resolver of UDP addresses (\<open>wgctrl\<close>; \<open>resolver_ok\<close>: only \<^verbatim>\<open>host:port\<close> resolves;
  \<open>device_ok\<close>: a configured peer other than the interface itself is listed), the liveness checker, files, the clock and the random
  source.  Each hypothesis about them has an instance in the examples next to the theorems.

  \<^bold>\<open>What is proved.\<close>
  \<^item> Circuits: the shape of every built circuit, the exit rule, the sort by score against a
    reference, when selection succeeds, when consecutive hops can share a jurisdiction, and that
    construction succeeds in a large enough network; the store against the history of its operations,
    and its index; passes of the rotation manager against a pointwise specification; what a rotation
    sends, stores and drops; the teardown of old peers.
  \<^item> SIM pool: allocation and release, rotation and retirement with their counts, the
    floating-point target, the liveness passes and the back-off against closed forms, and that
    no two sessions ever share a SIM in any interleaving of the running program, provided that
    clients never ask for one with an empty token, which the program does not refuse.
  \<^item> Gossip: signatures and deduplication keys; expiry; every answer of the API contains authentic
    records only, records are forwarded at most once; exactly which lines make the agent panic; an announcement
    is delivered from the bytes sent to the record stored; in a settled network in which nothing
    has expired records are stored by all members along the configured peers; a node stops
    listing itself unless its own heartbeats come back; a restart keeps the identity.
  \<^item> WireGuard and APN: peers are listed as configured, only well-formed commands are answered
    with success, and these fail only by errors of the device; sessions and routes stay consistent, and session events are delivered in
    order through two bounded channels.
  \<^item> All four sockets: every line is answered, one for one and in order, in every interleaving of
    connections and background goroutines from the start of \<^verbatim>\<open>main\<close> on.
  \<^item> Across components: hops of rotated circuits are backed by signed records, and in a network of
    agents with an adversary in between they are what the members configured; scores are the
    same for all members; the commands the controller sends never configure a tunnel.
  Several theorems state what the code does where its comments or documents promise
  something else.

  \<^bold>\<open>Not modelled.\<close>  Signals, logging (but for the slice in a log message that panics), file
  permissions, data races on fields that the code reads without its lock, and the deployment
  files.  Lines of a gossip connection are handled without interruption where bytes are modelled
  (\<open>serve_gossip\<close>) and in smaller steps where interleavings matter (\<open>gossip_step\<close>).  No packet is forwarded
  by any of the programs, so there is no data path to model.
\<close>

section \<open>The controller and the WireGuard manager\<close>

text \<open>
  A command of the controller as the manager receives it, by the JSON tags of the request;
  an absent key leaves the field empty.  The answer in the other direction: \<^verbatim>\<open>message\<close> is
  omitted when empty, and the list of peers is not one of the keys the controller reads.
\<close>

definition wg_request :: "strmap \<Rightarrow> wgAPIRequest" where
  "wg_request cmd =
     (let f = (\<lambda>k. case mget cmd k of Some v \<Rightarrow> v | None \<Rightarrow> [])
      in \<lparr>wreq_Command = f ''command'', wreq_PublicKey = f ''public_key'', wreq_Endpoint = f ''endpoint'',
          wreq_AllowedIP = f ''allowed_ip'', wreq_PeerID = f ''peer_id''\<rparr>)"

definition wg_answer :: "wgAPIResponse \<Rightarrow> strmap" where
  "wg_answer resp = [(''status'', wresp_Status resp), (''command'', wresp_Command resp)]
     @ (if wresp_Message resp = [] then [] else [(''message'', wresp_Message resp)])"

text \<open>
  The socket of the manager: every command comes over a connection of its own.  A panic ends
  the process (state \<open>None\<close>): the controller finds the connection closed without an answer,
  and later connections are refused.
\<close>

definition wg_socket :: "'d wgctrl \<Rightarrow> wgConfig \<Rightarrow> 'd option wg_service" where
  "wg_socket wc cfg w cmd =
     (case w of
        None \<Rightarrow> (None, Inl (LibError ''connection refused''))
      | Some d \<Rightarrow>
          (case handleConn_wg wc cfg [Inr (wg_request cmd)] d of
             Panic m \<Rightarrow> (None, Inr [])
           | Ret (d', resps) \<Rightarrow> (Some d', Inr (wg_answer (hd resps)))))"

lemma addWGPeer_socket:
  assumes "resolver_ok wc"
  shows "\<exists>e. addWGPeer (wg_socket wc cfg) w key a (a @ ''/32'') = (w, Some e)"
proof (cases w)
  case None
  then show ?thesis by (simp add: addWGPeer_def wgCommand_def wg_socket_def)
next
  case (Some d)
  obtain e where "addPeer wc cfg key a (a @ ''/32'') d = (d, Some e)"
    using addPeer_endpoint_prefix [OF assms] by blast
  with Some show ?thesis
    by (simp add: addWGPeer_def wgCommand_def wg_socket_def wg_request_def handle_wg_line_def Let_def
        wg_answer_def wg_resp0_def)
qed

lemma add_hop_peers_socket: "resolver_ok wc \<Longrightarrow> add_hop_peers (wg_socket wc cfg) w hs = w"
proof (induction hs arbitrary: w)
  case (Cons h hs)
  then show ?case using addWGPeer_socket [OF Cons.prems, of cfg w] by (metis add_hop_peers.simps(2) fst_conv)
qed simp

lemma rotate_circuit_socket:
  assumes "resolver_ok wc"
  shows "rc_wg (fst (rotate_circuit (wg_socket wc cfg) own env old r)) = rc_wg r"
  by (cases rule: rotate_cases [of env "wg_socket wc cfg" own old r])
    (simp_all add: add_hop_peers_socket [OF assms])

lemma rotate_due_socket:
  "resolver_ok wc \<Longrightarrow> rc_wg (rotate_due (wg_socket wc cfg) own env cs r) = rc_wg r"
  by (induction cs arbitrary: r) (simp_all add: rotate_circuit_socket)

lemma rotate_circuit_stores:
  assumes "rotate_circuit wg own env old r = (r', None)"
  obtains st nodes c where "re_gossip env = Inr (st, nodes)"
    and "build own nodes (ci_DeviceIMSI old) (re_entropy env) (re_built env) = Inr c"
    and "getByIMSI (ci_DeviceIMSI old) (rc_store r') = Some c"
  using assms by (cases rule: rotate_cases [of env wg own old r]) (auto simp: getByIMSI_def build_imsi)

text \<open>C22. Circuits without tunnels: connected to the WireGuard manager, every request of the controller
  to add a hop is answered with an error.  A rotation still reports success and stores a
  circuit of at least three hops, but neither it nor a whole pass of rotations changes the
  device.\<close>

theorem rotations_program_no_tunnel:
  assumes "resolver_ok wc"
  shows "(\<forall>w key a. \<exists>e. addWGPeer (wg_socket wc cfg) w key a (a @ ''/32'') = (w, Some e))
    \<and> rc_wg (checkRotations (wg_socket wc cfg) own env ord r) = rc_wg r
    \<and> (rotate_circuit (wg_socket wc cfg) own renv old r = (r', None) \<longrightarrow>
         rc_wg r' = rc_wg r \<and> (\<exists>c. getByIMSI (ci_DeviceIMSI old) (rc_store r') = Some c \<and> 3 \<le> length (ci_Hops c)))"
proof (intro conjI impI)
  show "\<forall>w key a. \<exists>e. addWGPeer (wg_socket wc cfg) w key a (a @ ''/32'') = (w, Some e)"
    using addWGPeer_socket [OF assms] by blast
  show "rc_wg (checkRotations (wg_socket wc cfg) own env ord r) = rc_wg r"
    using rotate_due_socket [OF assms] by (simp add: checkRotations_def)
  assume rot: "rotate_circuit (wg_socket wc cfg) own renv old r = (r', None)"
  then show "rc_wg r' = rc_wg r" using rotate_circuit_socket [OF assms] by (metis fst_conv)
  obtain st nodes c where c: "build own nodes (ci_DeviceIMSI old) (re_entropy renv) (re_built renv) = Inr c"
    and "getByIMSI (ci_DeviceIMSI old) (rc_store r') = Some c"
    using rotate_circuit_stores [OF rot] .
  moreover have "3 \<le> length (ci_Hops c)" using build_shape [OF c] by fastforce
  ultimately show "\<exists>c. getByIMSI (ci_DeviceIMSI old) (rc_store r') = Some c \<and> 3 \<le> length (ci_Hops c)" by blast
qed

text \<open>A circuit that is due, in a network in which a new one can be built.\<close>

definition ex_rotation_env :: rotation_env where
  "ex_rotation_env = \<lparr>re_now = 700 * second, re_gossip = Inr (''ok'', ex_nodes), re_entropy = zero_entropy,
     re_built = 700 * second\<rparr>"

definition ex_due :: Circuit where
  "ex_due = \<lparr>ci_CircuitID = ''c'', ci_DeviceIMSI = ''imsi'', ci_SessionToken = ''t'', ci_Hops = [], ci_CreatedAt = 0,
     ci_RotateAt = 600 * second\<rparr>"

definition ex_controller :: "DevicePeer list option controller" where
  "ex_controller = \<lparr>rc_store = cs_put ex_due newCircuitStore, rc_wg = Some [], rc_teardowns = []\<rparr>"

theorem rotations_program_no_tunnel_witness:
  "\<exists>r'. rotate_circuit (wg_socket ex_wgctrl defaultWGConfig) ''own'' ex_rotation_env ex_due ex_controller = (r', None)
    \<and> rc_wg r' = Some [] \<and> (\<exists>c. getByIMSI ''imsi'' (rc_store r') = Some c \<and> 3 \<le> length (ci_Hops c))"
proof -
  obtain c where "build ''own'' ex_nodes ''imsi'' zero_entropy (700 * second) = Inr c"
    using build_ex_nodes by blast
  then obtain r' where r': "rotate_circuit (wg_socket ex_wgctrl defaultWGConfig) ''own'' ex_rotation_env ex_due ex_controller = (r', None)"
    by (simp add: rotate_circuit_def ex_rotation_env_def queryGossipPeers_def ex_due_def)
  with rotations_program_no_tunnel [OF ex_resolver_ok] have
    "rc_wg r' = rc_wg ex_controller \<and> (\<exists>c. getByIMSI (ci_DeviceIMSI ex_due) (rc_store r') = Some c \<and> 3 \<le> length (ci_Hops c))"
    by blast
  with r' show ?thesis by (simp add: ex_controller_def ex_due_def)
qed

section \<open>The controller and the gossip agent\<close>

text \<open>
  A record of the agent as the controller decodes it: the fields with the same JSON tags.
  Version, GTP endpoint, timestamp and signature are dropped.
\<close>

definition circuit_view :: "NodeRecord \<Rightarrow> cNodeRecord" where
  "circuit_view r =
     \<lparr>cn_ServerID = nr_ServerID r, cn_WireGuardKey = nr_WireGuardKey r,
      cn_WireGuard = ep_WireGuard (nr_Endpoints r), cn_Jurisdictions = ca_Jurisdictions (nr_Capabilities r),
      cn_Regions = ca_Regions (nr_Capabilities r), cn_Uptime30d = ca_Uptime30d (nr_Capabilities r),
      cn_SIMPoolSize = ca_SIMPoolSize (nr_Capabilities r), cn_ExitNode = ca_ExitNode (nr_Capabilities r),
      cn_MaxCircuits = ca_MaxCircuits (nr_Capabilities r)\<rparr>"

definition list_peers_reply :: "gossip_env \<Rightarrow> string list \<Rightarrow> gossip \<Rightarrow> goerr + string \<times> cNodeRecord list" where
  "list_peers_reply env ord s =
     (let resp = handle_api_line env ord (Inr \<lparr>areq_Command = cmdListPeers, areq_ServerID = []\<rparr>) s
      in Inr (aresp_Status resp, map circuit_view (aresp_Records resp)))"

definition node_info_reply :: "gossip_env \<Rightarrow> gossip \<Rightarrow> goerr + string option" where
  "node_info_reply env s =
     Inr (map_option nr_ServerID (aresp_Record (handle_api_line env [] (Inr \<lparr>areq_Command = cmdNodeInfo, areq_ServerID = []\<rparr>) s)))"

lemma node_info_identity:
  assumes "gossip_inv env s"
  shows "node_info_reply env s = Inr (Some (serverID (ge_key env)))"
  using gossip_invD(4) [OF assms]
  by (simp add: node_info_reply_def handle_api_line_def cmdNodeInfo_def cmdListPeers_def cmdGetNode_def)

lemma circuit_view_fields [simp]:
  "cn_ServerID (circuit_view r) = nr_ServerID r" "cn_WireGuardKey (circuit_view r) = nr_WireGuardKey r"
  "cn_WireGuard (circuit_view r) = ep_WireGuard (nr_Endpoints r)"
  "cn_ExitNode (circuit_view r) = ca_ExitNode (nr_Capabilities r)"
  by (simp_all add: circuit_view_def)

lemma build_hop_node:
  assumes "build own nodes imsi ent now = Inr c" and "h \<in> set (ci_Hops c)"
  obtains n where "n \<in> set nodes" and "cn_ServerID n \<noteq> own" and "h = mk_hop (nat (hop_HopIndex h)) (hop_IsExit h) n"
    and "hop_IsExit h \<Longrightarrow> cn_ExitNode n"
proof -
  obtain middle ex uuid token where c: "c = assembled middle ex uuid imsi token now"
    and sub: "set (middle @ [ex]) \<subseteq> set nodes" "own \<notin> cn_ServerID ` set (middle @ [ex])" and ex: "cn_ExitNode ex"
    using build_shape [OF assms(1)] by metis
  obtain i where i: "i < Suc (length middle)" and h: "h = mk_hop i (i = length middle) ((middle @ [ex]) ! i)"
    using assms(2) unfolding c assembled_hops by (auto simp: less_Suc_eq simp del: upt_Suc)
  have mem: "(middle @ [ex]) ! i \<in> set (middle @ [ex])" using i by (intro nth_mem) simp
  show thesis
  proof (rule that)
    show "(middle @ [ex]) ! i \<in> set nodes" "cn_ServerID ((middle @ [ex]) ! i) \<noteq> own" using mem sub by blast+
    show "h = mk_hop (nat (hop_HopIndex h)) (hop_IsExit h) ((middle @ [ex]) ! i)" by (simp add: h mk_hop_def)
    show "hop_IsExit h \<Longrightarrow> cn_ExitNode ((middle @ [ex]) ! i)" using ex by (simp add: h mk_hop_def)
  qed
qed

text \<open>The hops of a rotated circuit come from verified records of the agent that was asked.\<close>

lemma rotated_hops:
  assumes inv: "gossip_inv env s" and ord: "range_order (st_records (gn_store s)) ord"
    and reply: "re_gossip renv = list_peers_reply env ord s"
    and rot: "rotate_circuit wg (serverID (ge_key env)) renv old r = (r', None)"
  obtains c where "getByIMSI (ci_DeviceIMSI old) (rc_store r') = Some c" and "3 \<le> length (ci_Hops c)"
    and "\<And>h. h \<in> set (ci_Hops c) \<Longrightarrow> \<exists>nr \<in> set (gn_heap s). authentic env nr \<and> nr_ServerID nr \<noteq> serverID (ge_key env)
       \<and> h = mk_hop (nat (hop_HopIndex h)) (hop_IsExit h) (circuit_view nr) \<and> (hop_IsExit h \<longrightarrow> ca_ExitNode (nr_Capabilities nr))"
proof -
  let ?rs = "aresp_Records (handle_api_line env ord (Inr \<lparr>areq_Command = cmdListPeers, areq_ServerID = []\<rparr>) s)"
  obtain c where c: "build (serverID (ge_key env)) (map circuit_view ?rs) (ci_DeviceIMSI old) (re_entropy renv) (re_built renv) = Inr c"
    and st: "getByIMSI (ci_DeviceIMSI old) (rc_store r') = Some c"
    using rotate_circuit_stores [OF rot] reply unfolding list_peers_reply_def Let_def by (metis Inr_inject snd_conv)
  have "\<exists>nr \<in> set (gn_heap s). authentic env nr \<and> nr_ServerID nr \<noteq> serverID (ge_key env)
       \<and> h = mk_hop (nat (hop_HopIndex h)) (hop_IsExit h) (circuit_view nr) \<and> (hop_IsExit h \<longrightarrow> ca_ExitNode (nr_Capabilities nr))"
    if h: "h \<in> set (ci_Hops c)" for h
  proof -
    obtain n where n: "n \<in> set (map circuit_view ?rs)" "cn_ServerID n \<noteq> serverID (ge_key env)"
      "h = mk_hop (nat (hop_HopIndex h)) (hop_IsExit h) n" "hop_IsExit h \<Longrightarrow> cn_ExitNode n"
      using build_hop_node [OF c h] by metis
    then obtain nr where nr: "nr \<in> set ?rs" "n = circuit_view nr" by auto
    have "authentic env nr" using list_peers_records(3) [OF inv ord nr(1)] n(2) nr(2) by simp
    moreover have "nr \<in> set (gn_heap s)" using list_peers_records(2) [OF inv ord nr(1)] .
    ultimately show ?thesis using n(2-4) nr(2) by auto
  qed
  moreover have "3 \<le> length (ci_Hops c)" using build_shape [OF c] by fastforce
  ultimately show thesis using that st by blast
qed

lemma mk_hop_fields [simp]:
  "hop_ServerID (mk_hop i e n) = cn_ServerID n" "hop_WireGuardAddress (mk_hop i e n) = cn_WireGuard n"
  "hop_WireGuardPubKey (mk_hop i e n) = cn_WireGuardKey n" "hop_Jurisdiction (mk_hop i e n) = primaryJurisdiction n"
  by (simp_all add: mk_hop_def)

text \<open>C2. From gossip to circuits: a controller that asked the local agent for its identity and rebuilds
  circuits from the agent's answers only uses hops for which the agent holds a record with a
  valid signature of the hop's server.  The tunnel key and the address of the hop are the
  signed ones, an exit hop has the exit capability in its signed record, and no hop is the
  node itself.\<close>

theorem circuit_hops_authentic:
  assumes "reachable (gossip_init env) (gossip_step env) s0" and "reachable (gossip_init env) (gossip_step env) s"
    and "range_order (st_records (gn_store s)) ord"
    and "cc_OwnServerID cfg = []" and "resolveOwnServerID cfg (node_info_reply env s0) = Inr cfg'"
    and "re_gossip renv = list_peers_reply env ord s"
    and "rotate_circuit wg (cc_OwnServerID cfg') renv old r = (r', None)"
  shows "\<exists>c. getByIMSI (ci_DeviceIMSI old) (rc_store r') = Some c
    \<and> (\<forall>h \<in> set (ci_Hops c). \<exists>nr \<in> set (gn_heap s).
         verifyRecord (ge_ed env) (ge_js env) nr = Ret (nr, None) \<and> nr_ServerID nr \<noteq> serverID (ge_key env)
       \<and> hop_ServerID h = nr_ServerID nr \<and> hop_WireGuardPubKey h = nr_WireGuardKey nr
       \<and> hop_WireGuardAddress h = ep_WireGuard (nr_Endpoints nr)
       \<and> (hop_IsExit h \<longrightarrow> ca_ExitNode (nr_Capabilities nr)))"
proof -
  have own: "cc_OwnServerID cfg' = serverID (ge_key env)"
    using assms(4,5) node_info_identity [OF agent.reachable_inv [OF assms(1)]] by (auto simp: resolveOwnServerID_def)
  obtain c where c: "getByIMSI (ci_DeviceIMSI old) (rc_store r') = Some c"
    and hops: "\<And>h. h \<in> set (ci_Hops c) \<Longrightarrow> \<exists>nr \<in> set (gn_heap s). authentic env nr \<and> nr_ServerID nr \<noteq> serverID (ge_key env)
       \<and> h = mk_hop (nat (hop_HopIndex h)) (hop_IsExit h) (circuit_view nr) \<and> (hop_IsExit h \<longrightarrow> ca_ExitNode (nr_Capabilities nr))"
    using rotated_hops [OF agent.reachable_inv [OF assms(2)] assms(3,6) assms(7) [unfolded own]] by blast
  show ?thesis
  proof (intro exI conjI ballI)
    fix h assume "h \<in> set (ci_Hops c)"
    from hops [OF this] obtain nr where nr: "nr \<in> set (gn_heap s)" "authentic env nr" "nr_ServerID nr \<noteq> serverID (ge_key env)"
      "hop_IsExit h \<longrightarrow> ca_ExitNode (nr_Capabilities nr)" and h: "h = mk_hop (nat (hop_HopIndex h)) (hop_IsExit h) (circuit_view nr)"
      by blast
    show "\<exists>nr \<in> set (gn_heap s).
         verifyRecord (ge_ed env) (ge_js env) nr = Ret (nr, None) \<and> nr_ServerID nr \<noteq> serverID (ge_key env)
       \<and> hop_ServerID h = nr_ServerID nr \<and> hop_WireGuardPubKey h = nr_WireGuardKey nr
       \<and> hop_WireGuardAddress h = ep_WireGuard (nr_Endpoints nr)
       \<and> (hop_IsExit h \<longrightarrow> ca_ExitNode (nr_Capabilities nr))"
    proof (intro bexI [of _ nr] conjI)
      show "hop_ServerID h = nr_ServerID nr" "hop_WireGuardPubKey h = nr_WireGuardKey nr"
        "hop_WireGuardAddress h = ep_WireGuard (nr_Endpoints nr)" by (subst h, simp)+
    qed (use nr in \<open>simp_all add: authentic_def\<close>)
  qed (rule c)
qed

text \<open>C4. Circuits through a network: all members run the agent, each with a key and a configuration of its
  own, while an adversary sends, replays and reorders messages at will but cannot forge their
  signatures.  In whatever state the network is, a circuit that a member rebuilds from its agent
  has at least three hops, and each hop that names a member has the tunnel key, the address,
  the jurisdiction and, at the exit, the permission that this member configured.\<close>

theorem circuit_hops_genuine:
  assumes "coding_ok js C" and "\<forall>i \<in> N. \<forall>now. own_record (me_cfg (mem i)) (me_key (mem i)) now \<in> C"
    and "reachable (network_init ed js mem N) (network_step ed js mem N) w" and "i \<in> N"
    and "range_order (st_records (gn_store (nw_nodes w i))) ord"
    and "re_gossip renv = list_peers_reply (member_env ed js mem i) ord (nw_nodes w i)"
    and "rotate_circuit wg (serverID (me_key (mem i))) renv old r = (r', None)"
  shows "\<exists>c. getByIMSI (ci_DeviceIMSI old) (rc_store r') = Some c \<and> 3 \<le> length (ci_Hops c)
    \<and> (\<forall>h \<in> set (ci_Hops c). \<forall>j \<in> N. hop_ServerID h = serverID (me_key (mem j)) \<longrightarrow>
         j \<noteq> i \<and> hop_WireGuardPubKey h = gc_WireGuardPubKey (me_cfg (mem j))
       \<and> hop_WireGuardAddress h = gc_WireGuardAddr (me_cfg (mem j))
       \<and> hop_Jurisdiction h = (case gc_Jurisdictions (me_cfg (mem j)) of [] \<Rightarrow> [] | jur # _ \<Rightarrow> jur)
       \<and> (hop_IsExit h \<longrightarrow> gc_ExitNode (me_cfg (mem j))))"
proof -
  have inv: "network_inv ed js mem N w" using network_reachable_inv [OF assms(1-3)] .
  have ginv: "gossip_inv (member_env ed js mem i) (nw_nodes w i)" using inv assms(4) unfolding network_inv_def by blast
  obtain c where c: "getByIMSI (ci_DeviceIMSI old) (rc_store r') = Some c" "3 \<le> length (ci_Hops c)"
    and hops: "\<And>h. h \<in> set (ci_Hops c) \<Longrightarrow> \<exists>nr \<in> set (gn_heap (nw_nodes w i)). authentic (member_env ed js mem i) nr
       \<and> nr_ServerID nr \<noteq> serverID (me_key (mem i))
       \<and> h = mk_hop (nat (hop_HopIndex h)) (hop_IsExit h) (circuit_view nr) \<and> (hop_IsExit h \<longrightarrow> ca_ExitNode (nr_Capabilities nr))"
    using rotated_hops [OF ginv assms(5,6)] assms(7) by (simp only: member_env_simps) blast
  show ?thesis
  proof (intro exI conjI ballI impI)
    fix h j assume h: "h \<in> set (ci_Hops c)" and j: "j \<in> N" "hop_ServerID h = serverID (me_key (mem j))"
    from hops [OF h] obtain nr where nr: "nr \<in> set (gn_heap (nw_nodes w i))" "nr_ServerID nr \<noteq> serverID (me_key (mem i))"
      "hop_IsExit h \<longrightarrow> ca_ExitNode (nr_Capabilities nr)" and hop: "h = mk_hop (nat (hop_HopIndex h)) (hop_IsExit h) (circuit_view nr)"
      by blast
    have sid: "nr_ServerID nr = serverID (me_key (mem j))" using j(2) by (subst (asm) hop) simp
    show "j \<noteq> i" using sid nr(2) by metis
    note f = record_of_fields [OF member_records [OF inv assms(4) j(1) nr(1) sid nr(2)]]
    show "hop_WireGuardPubKey h = gc_WireGuardPubKey (me_cfg (mem j))" by (subst hop) (simp add: f)
    show "hop_WireGuardAddress h = gc_WireGuardAddr (me_cfg (mem j))" by (subst hop) (simp add: f)
    show "hop_Jurisdiction h = (case gc_Jurisdictions (me_cfg (mem j)) of [] \<Rightarrow> [] | jur # _ \<Rightarrow> jur)"
      by (subst hop) (simp add: f primaryJurisdiction_def circuit_view_def)
    show "hop_IsExit h \<Longrightarrow> gc_ExitNode (me_cfg (mem j))" using nr(3) f(4) by simp
  qed (fact c)+
qed

text \<open>The score of a node, as its agent announces it.\<close>

lemma record_of_score:
  assumes "record_of m r"
  shows "score (circuit_view r) = Fin 100 0"
proof -
  have "nr_Capabilities (r\<lparr>nr_Signature := []\<rparr>) = nr_Capabilities (own_record (me_cfg m) (me_key m) (tm_inst (nr_Timestamp r)))"
    using assms unfolding record_of_def by simp
  then show ?thesis by (simp add: own_record_def circuit_view_def score_def f64_of_int_def)
qed

lemma sift_down_equal:
  "\<forall>n \<in> set out. score n = Fin 100 0 \<Longrightarrow> i < length out \<Longrightarrow> sift_down out i = out"
  by (induction i arbitrary: out) simp_all

lemma scoreNodes_equal:
  assumes "\<forall>n \<in> set nodes. score n = Fin 100 0"
  shows "scoreNodes nodes = nodes"
proof -
  have "fold (\<lambda>i out. sift_down out i) is nodes = nodes" if "\<forall>i \<in> set is. i < length nodes" for "is"
    using that assms by (induction "is") (simp_all add: sift_down_equal)
  then show ?thesis unfolding scoreNodes_def by simp
qed

text \<open>C15. Scores do not matter: an agent announces an uptime of 1 and no SIM cards, whatever it has.  So when a
  controller is given members of the network only, all have the score 100, and the sort by
  score leaves them in the random order in which the agent listed them.\<close>

theorem member_scores_equal:
  assumes "coding_ok js C" and "\<forall>i \<in> N. \<forall>now. own_record (me_cfg (mem i)) (me_key (mem i)) now \<in> C"
    and "reachable (network_init ed js mem N) (network_step ed js mem N) w" and "i \<in> N"
    and "range_order (st_records (gn_store (nw_nodes w i))) ord"
    and "list_peers_reply (member_env ed js mem i) ord (nw_nodes w i) = Inr (status, nodes)"
    and "cn_ServerID ` set nodes \<subseteq> (\<lambda>j. serverID (me_key (mem j))) ` N"
  shows "(\<forall>n \<in> set nodes. score n = Fin 100 0) \<and> scoreNodes nodes = nodes"
proof -
  have inv: "network_inv ed js mem N w" using network_reachable_inv [OF assms(1-3)] .
  have ginv: "gossip_inv (member_env ed js mem i) (nw_nodes w i)" using inv assms(4) unfolding network_inv_def by blast
  have "score n = Fin 100 0" if n: "n \<in> set nodes" for n
  proof -
    let ?rs = "aresp_Records (handle_api_line (member_env ed js mem i) ord (Inr \<lparr>areq_Command = cmdListPeers, areq_ServerID = []\<rparr>) (nw_nodes w i))"
    have "nodes = map circuit_view ?rs" using assms(6) by (simp add: list_peers_reply_def Let_def)
    then obtain nr where "nr \<in> set ?rs" and n': "n = circuit_view nr" using n by auto
    then have nr: "nr \<in> set (gn_heap (nw_nodes w i))" "n = circuit_view nr" using list_peers_records(2) [OF ginv assms(5)] by blast+
    obtain j where j: "j \<in> N" "nr_ServerID nr = serverID (me_key (mem j))" using n assms(7) nr(2) by auto
    have "\<exists>m. record_of m nr" using listed_member [OF inv assms(4) nr(1) j] by blast
    then show ?thesis using record_of_score nr(2) by blast
  qed
  then show ?thesis using scoreNodes_equal by blast
qed

section \<open>An example run\<close>

text \<open>Member 7 of the example network has learnt of the other four, and its controller asks.\<close>

lemma net_list:
  assumes "distinct (7 # bs)"
  shows "list_peers_reply net_env (net_ids bs) (net_learn bs) = Inr (''ok'', map (circuit_view \<circ> net_record) (7 # rev bs))"
  using net_active [OF assms] by (simp add: list_peers_reply_def handle_api_line_def api_resp0_def Let_def)

text \<open>The four peers as the controller sees them, and the circuit it builds from them.\<close>

definition net_nodes :: "cNodeRecord list" where
  "net_nodes = map (circuit_view \<circ> net_record) [1, 2, 3, 4]"

lemma net_record_view:
  "circuit_view (net_record b) = \<lparr>cn_ServerID = serverID (net_key b), cn_WireGuardKey = ''wg'' @ serverID (net_key b),
     cn_WireGuard = ''192.0.2.1:51820'',
     cn_Jurisdictions = [if b = 1 then ''SE'' else if b = 2 then ''NL'' else if b = 3 then ''SE'' else ''DE''],
     cn_Regions = [], cn_Uptime30d = Fin 1 0, cn_SIMPoolSize = 0, cn_ExitNode = True, cn_MaxCircuits = 100\<rparr>"
  by (simp add: circuit_view_def net_record_def net_announced_def own_record_def net_cfg_def defaultConfig_def)

lemma net_node_jurisdiction [simp]:
  "primaryJurisdiction (circuit_view (net_record b)) =
     (if b = 1 then ''SE'' else if b = 2 then ''NL'' else if b = 3 then ''SE'' else ''DE'')"
  by (simp add: net_record_view primaryJurisdiction_def)

lemma net_exit [simp]: "ca_ExitNode (nr_Capabilities (net_record b))"
  by (simp add: net_record_def net_announced_def own_record_def net_cfg_def)

lemma net_scores: "map score net_nodes = [Fin 100 0, Fin 100 0, Fin 100 0, Fin 100 0]"
  by (simp add: net_nodes_def net_record_view score_def f64_of_int_def)

lemma scoreNodes_net: "scoreNodes net_nodes = net_nodes"
  using net_scores unfolding scoreNodes_def net_nodes_def
  by (simp add: upt_rec numeral_3_eq_3 numeral_2_eq_2)

lemma net_middle: "selectMiddleHops net_nodes 2 zero_entropy 1 = Inr ([net_nodes ! 0, net_nodes ! 1], 3)"
  by (simp add: selectMiddleHops_def scoreNodes_net) (simp add: net_nodes_def middle_loop_zero eligible_hops_def)

lemma build_filter: "build own nodes imsi ent now = build own (filter (\<lambda>n. cn_ServerID n \<noteq> own) nodes) imsi ent now"
  by (simp add: build_def)

lemma build_net: "\<exists>c. build (serverID (net_key 7)) (circuit_view (net_record 7) # net_nodes) imsi zero_entropy now = Inr c"
proof -
  have f: "filter (\<lambda>n. cn_ServerID n \<noteq> serverID (net_key 7)) net_nodes = net_nodes"
    by (simp add: net_nodes_def)
  have e: "exit_candidates net_nodes [net_nodes ! 0, net_nodes ! 1] = [net_nodes ! 2, net_nodes ! 3]"
    by (simp add: exit_candidates_def net_nodes_def)
  have "\<exists>uuid token. build (serverID (net_key 7)) net_nodes imsi zero_entropy now =
      Inr (assembled [net_nodes ! 0, net_nodes ! 1] (net_nodes ! 2) uuid imsi token now)"
    by (rule build_zero [OF f _ _ net_middle e]) (simp_all add: net_nodes_def jurisdictionCount_def)
  then show ?thesis using build_filter [of "serverID (net_key 7)" "circuit_view (net_record 7) # net_nodes"] f by auto
qed

definition net_rotation :: rotation_env where
  "net_rotation = \<lparr>re_now = 700 * second, re_gossip = list_peers_reply net_env (net_ids [4, 3, 2, 1]) (net_learn [4, 3, 2, 1]),
     re_entropy = zero_entropy, re_built = 700 * second\<rparr>"

lemma net_distinct: "distinct (7 # [4, 3, 2, 1 :: byte])"
  by simp

lemma net_rotates:
  "\<exists>r'. rotate_circuit (wg_socket ex_wgctrl defaultWGConfig) (serverID (net_key 7)) net_rotation ex_due ex_controller = (r', None)"
proof -
  have reply: "re_gossip net_rotation = Inr (''ok'', circuit_view (net_record 7) # net_nodes)"
    using net_list [OF net_distinct] by (simp add: net_rotation_def net_nodes_def)
  obtain c where "build (serverID (net_key 7)) (circuit_view (net_record 7) # net_nodes) ''imsi'' zero_entropy (700 * second) = Inr c"
    using build_net by blast
  then show ?thesis
    using reply by (simp add: rotate_circuit_def queryGossipPeers_def ex_due_def) (simp add: net_rotation_def)
qed

theorem circuit_hops_authentic_witness:
  "\<exists>r' c. rotate_circuit (wg_socket ex_wgctrl defaultWGConfig) (serverID (net_key 7)) net_rotation ex_due ex_controller = (r', None)
    \<and> getByIMSI ''imsi'' (rc_store r') = Some c
    \<and> list_all (\<lambda>h. list_ex (\<lambda>nr. verifyRecord ex_ed net_js nr = Ret (nr, None)
        \<and> hop_WireGuardPubKey h = nr_WireGuardKey nr) (gn_heap (net_learn [4, 3, 2, 1]))) (ci_Hops c)"
proof -
  have s0: "reachable (gossip_init net_env) (gossip_step net_env) (net_start 7)"
    using net_agent_reachable [of "gossip_init net_env" "[]", OF net_agent_init] by simp
  have own: "resolveOwnServerID defaultCircuitConfig (node_info_reply net_env (net_start 7)) =
      Inr (defaultCircuitConfig\<lparr>cc_OwnServerID := serverID (net_key 7)\<rparr>)"
    using node_info_identity [OF agent.reachable_inv [OF s0]]
    by (simp add: resolveOwnServerID_def defaultCircuitConfig_def net_env_key)
  obtain r' where r': "rotate_circuit (wg_socket ex_wgctrl defaultWGConfig) (serverID (net_key 7)) net_rotation ex_due ex_controller = (r', None)"
    using net_rotates by blast
  show ?thesis
    using circuit_hops_authentic [OF s0 net_agent_reachable [of "gossip_init net_env", OF net_agent_init net_distinct] net_order [OF net_distinct] _ own, of net_rotation
        "wg_socket ex_wgctrl defaultWGConfig" ex_due ex_controller r'] r'
    by (simp add: list_all_iff list_ex_iff net_env_key net_rotation_def ex_due_def defaultCircuitConfig_def) blast
qed

theorem circuit_hops_genuine_witness:
  "\<exists>r' c. rotate_circuit (wg_socket ex_wgctrl defaultWGConfig) (serverID (net_key 7)) net_rotation ex_due ex_controller = (r', None)
    \<and> getByIMSI ''imsi'' (rc_store r') = Some c \<and> 3 \<le> length (ci_Hops c)
    \<and> list_all (\<lambda>h. list_all (\<lambda>j. hop_ServerID h \<noteq> serverID (me_key (net_mem j))
        \<or> hop_WireGuardPubKey h = gc_WireGuardPubKey (me_cfg (net_mem j))) [''1'', ''2'', ''3'', ''4'', ''7'']) (ci_Hops c)"
proof -
  obtain w where w: "reachable (network_init ex_ed net_js net_mem net_members) (network_step ex_ed net_js net_mem net_members) w"
    and s: "nw_nodes w ''7'' = net_learn [4, 3, 2, 1]"
    using net_run [OF net_distinct] by auto
  obtain r' where r': "rotate_circuit (wg_socket ex_wgctrl defaultWGConfig) (serverID (net_key 7)) net_rotation ex_due ex_controller = (r', None)"
    using net_rotates by blast
  have m: "''7'' \<in> net_members" by (simp add: net_members_def)
  have k: "me_key (net_mem ''7'') = net_key 7" by (simp add: net_mem_simps net_byte_def)
  show ?thesis
    using circuit_hops_genuine [OF net_coding net_own_coded w m, of "net_ids [4, 3, 2, 1]" net_rotation
        "wg_socket ex_wgctrl defaultWGConfig" ex_due ex_controller r'] r' net_order [OF net_distinct]
    by (simp add: s k net_env_def net_rotation_def ex_due_def net_members_def list_all_iff) blast
qed

theorem member_scores_equal_witness:
  "scoreNodes (map (circuit_view \<circ> net_record) [7, 1, 2, 3, 4]) = map (circuit_view \<circ> net_record) [7, 1, 2, 3, 4]"
proof -
  obtain w where w: "reachable (network_init ex_ed net_js net_mem net_members) (network_step ex_ed net_js net_mem net_members) w"
    and s: "nw_nodes w ''7'' = net_learn [4, 3, 2, 1]"
    using net_run [OF net_distinct] by auto
  have m: "''7'' \<in> net_members" by (simp add: net_members_def)
  have "list_peers_reply (member_env ex_ed net_js net_mem ''7'') (net_ids [4, 3, 2, 1]) (nw_nodes w ''7'') =
      Inr (''ok'', map (circuit_view \<circ> net_record) [7, 1, 2, 3, 4])"
    using net_list [OF net_distinct] by (simp add: s net_env_def)
  moreover have "cn_ServerID ` set (map (circuit_view \<circ> net_record) [7, 1, 2, 3, 4]) \<subseteq> (\<lambda>j. serverID (me_key (net_mem j))) ` net_members"
    by (simp add: net_members_def net_mem_simps net_byte_def)
  moreover have "range_order (st_records (gn_store (nw_nodes w ''7''))) (net_ids [4, 3, 2, 1])"
    using net_order [OF net_distinct] by (simp add: s)
  ultimately show ?thesis using member_scores_equal [OF net_coding net_own_coded w m] by blast
qed

end
